theory Spec2Isabelle
  imports Complex_Main "HOL-Library.Multiset"
begin

section \<open>The Atom object of \<^verbatim>\<open>atom.py\<close>\<close>

text \<open>
  The module defines one class, \<^verbatim>\<open>Atom\<close>. Its instances are modelled as a record, its
  methods as functions of the receiver. A method that assigns attributes returns the
  updated receiver; a method that can raise returns a sum with the exception on the left.
\<close>

subsection \<open>Python floats\<close>

text \<open>
  A Python float is an IEEE 754 binary64 number. The finite ones are the reals
  \<open>m * 2 ^ e\<close> with an integer \<open>m\<close> of less than 53 bits and \<open>e\<close> from -1074 on. Addition,
  subtraction and the square root return the exact result rounded to the nearest of them,
  a tie going to the one with the even \<open>m\<close>; \<^verbatim>\<open>a ** 2\<close> is taken to do so for the product
  of \<open>a\<close> with itself. The type \<open>float64\<close> below has these numbers and this rounding. It
  puts no upper bound on \<open>e\<close>, so that no operation overflows, and it has one zero, no
  infinity and no NaN: the methods that compute are modelled on the finite numbers. The
  values left out matter to the comparison \<^verbatim>\<open>==\<close>, which is modelled on every value of a
  float, the type \<open>pyfloat\<close> below.
\<close>

definition is_double :: "real \<Rightarrow> bool" where
  "is_double r \<longleftrightarrow>
     (\<exists>m e :: int. \<bar>m\<bar> < 2 ^ 53 \<and> - 1074 \<le> e \<and> r = of_int m * 2 powr of_int e)"

text \<open>The nearest integer, a tie going to the even one.\<close>

definition round_even :: "real \<Rightarrow> int" where
  "round_even s =
     (let n = \<lfloor>s\<rfloor>
      in if s - of_int n < 1/2 then n
         else if 1/2 < s - of_int n then n + 1
         else if even n then n else n + 1)"

text \<open>
  The exponent of the last place of a double near \<open>r\<close>, and \<open>r\<close> rounded to a double.
\<close>

definition ulp_exp :: "real \<Rightarrow> int" where
  "ulp_exp r = max (\<lfloor>log 2 \<bar>r\<bar>\<rfloor> - 52) (- 1074)"

definition fl :: "real \<Rightarrow> real" where
  "fl r =
     (if r = 0 then 0
      else of_int (round_even (r / 2 powr of_int (ulp_exp r))) * 2 powr of_int (ulp_exp r))"

text \<open>
  Zero and one are doubles, and rounding returns a double: what the type of the floats
  and its operations rest on.
\<close>

lemma round_even_bound:
  assumes "\<bar>s\<bar> < of_int N"
  shows "\<bar>round_even s\<bar> \<le> N"
proof -
  from assms have "s < of_int N" "- of_int N < s" by linarith+
  then have "\<lfloor>s\<rfloor> < N" "- N \<le> \<lfloor>s\<rfloor>"
    by (simp_all add: floor_less_iff le_floor_iff less_imp_le)
  then show ?thesis
    by (auto simp: round_even_def Let_def)
qed

lemma is_double_zero: "is_double 0"
  unfolding is_double_def by (rule exI [of _ 0], rule exI [of _ 0]) simp

lemma is_double_uminus: "is_double (- r) \<longleftrightarrow> is_double r"
proof -
  have "is_double (- r)" if "is_double r" for r
  proof -
    from that obtain m e :: int where "\<bar>m\<bar> < 2 ^ 53" "- 1074 \<le> e" "r = of_int m * 2 powr of_int e"
      unfolding is_double_def by blast
    then show ?thesis
      unfolding is_double_def by (intro exI [of _ "- m"] exI [of _ e]) simp
  qed
  from this [of r] this [of "- r"] show ?thesis by auto
qed

lemma ulp_exp_ge: "- 1074 \<le> ulp_exp r"
  by (simp add: ulp_exp_def)

lemma binade:
  assumes "r \<noteq> 0"
  shows "2 powr of_int \<lfloor>log 2 \<bar>r\<bar>\<rfloor> \<le> \<bar>r\<bar>" and "\<bar>r\<bar> < 2 powr (of_int \<lfloor>log 2 \<bar>r\<bar>\<rfloor> + 1)"
  using floor_log_eq_powr_iff [of "\<bar>r\<bar>" 2 "\<lfloor>log 2 \<bar>r\<bar>\<rfloor>"] assms by simp_all

lemma scaled_less:
  assumes "r \<noteq> 0"
  shows "\<bar>r / 2 powr of_int (ulp_exp r)\<bar> < 2 ^ 53"
proof -
  have "of_int \<lfloor>log 2 \<bar>r\<bar>\<rfloor> + 1 \<le> (of_int (ulp_exp r) + 53 :: real)"
    unfolding ulp_exp_def by (simp add: max_def)
  then have "2 powr (of_int \<lfloor>log 2 \<bar>r\<bar>\<rfloor> + 1) \<le> (2 :: real) powr (of_int (ulp_exp r) + 53)"
    by simp
  with binade(2) [OF assms] have "\<bar>r\<bar> < 2 powr (of_int (ulp_exp r) + 53)"
    by linarith
  also have "\<dots> = 2 powr of_int (ulp_exp r) * 2 ^ 53"
    by (simp add: powr_add)
  finally show ?thesis
    by (simp add: divide_simps mult.commute)
qed

lemma fl_is_double: "is_double (fl r)"
proof (cases "r = 0")
  case True
  then show ?thesis by (simp add: fl_def is_double_zero)
next
  case False
  let ?e = "ulp_exp r"
  let ?n = "round_even (r / 2 powr of_int ?e)"
  have "\<bar>r / 2 powr of_int ?e\<bar> < of_int (2 ^ 53)"
    using scaled_less [OF False] by simp
  then have n: "\<bar>?n\<bar> \<le> 2 ^ 53"
    by (rule round_even_bound)
  show ?thesis
  proof (cases "\<bar>?n\<bar> < 2 ^ 53")
    case True
    then show ?thesis
      unfolding is_double_def using False ulp_exp_ge [of r]
      by (intro exI [of _ ?n] exI [of _ ?e]) (simp add: fl_def)
  next
    case False
    with n have "?n = 2 ^ 53 \<or> ?n = - (2 ^ 53)" by linarith
    then have "fl r = of_int (?n div 2) * 2 powr of_int (?e + 1) \<and> \<bar>?n div 2\<bar> < 2 ^ 53"
      using \<open>r \<noteq> 0\<close> by (auto simp: fl_def powr_add)
    then show ?thesis
      unfolding is_double_def using ulp_exp_ge [of r]
      by (intro exI [of _ "?n div 2"] exI [of _ "?e + 1"]) simp
  qed
qed

lemma is_double_one: "is_double 1"
  unfolding is_double_def by (rule exI [of _ 1], rule exI [of _ 0]) simp

text \<open>The type of the floats, with the arithmetic and the comparisons of Python.\<close>

typedef float64 = "{r. is_double r}"
  using is_double_zero by blast

setup_lifting type_definition_float64

instantiation float64 :: "{zero, one, uminus, plus, minus, linorder}"
begin

lift_definition zero_float64 :: float64 is 0
  by (rule is_double_zero)

lift_definition one_float64 :: float64 is 1
  by (rule is_double_one)

lift_definition uminus_float64 :: "float64 \<Rightarrow> float64" is uminus
  by (simp add: is_double_uminus)

lift_definition plus_float64 :: "float64 \<Rightarrow> float64 \<Rightarrow> float64" is "\<lambda>a b. fl (a + b)"
  by (rule fl_is_double)

lift_definition minus_float64 :: "float64 \<Rightarrow> float64 \<Rightarrow> float64" is "\<lambda>a b. fl (a - b)"
  by (rule fl_is_double)

lift_definition less_eq_float64 :: "float64 \<Rightarrow> float64 \<Rightarrow> bool" is "(\<le>)" .

lift_definition less_float64 :: "float64 \<Rightarrow> float64 \<Rightarrow> bool" is "(<)" .

instance
  by standard (transfer; auto)+

end

text \<open>
  The double a decimal literal or an int denotes; \<^verbatim>\<open>a ** 2\<close>; \<^verbatim>\<open>np.sqrt(a)\<close>.
\<close>

lift_definition double :: "real \<Rightarrow> float64" is fl
  by (rule fl_is_double)

lift_definition square :: "float64 \<Rightarrow> float64" is "\<lambda>a. fl (a * a)"
  by (rule fl_is_double)

lift_definition fsqrt :: "float64 \<Rightarrow> float64" is "\<lambda>a. fl (sqrt a)"
  by (rule fl_is_double)

text \<open>
  Every value a float can hold: the finite doubles, \<open>Finite 0\<close> being \<^verbatim>\<open>0.0\<close>; \<^verbatim>\<open>-0.0\<close>; the
  two infinities; NaN. The operator \<^verbatim>\<open>==\<close> on them compares numbers: the two zeros are
  equal, and NaN is equal to nothing, itself included.
\<close>

datatype pyfloat = Finite float64 | NegZero | PosInf | NegInf | NaN

fun py_eq :: "pyfloat \<Rightarrow> pyfloat \<Rightarrow> bool" where
  "py_eq NaN v = False"
| "py_eq u NaN = False"
| "py_eq (Finite u) (Finite v) = (u = v)"
| "py_eq (Finite u) NegZero = (u = 0)"
| "py_eq NegZero (Finite v) = (v = 0)"
| "py_eq NegZero NegZero = True"
| "py_eq PosInf PosInf = True"
| "py_eq NegInf NegInf = True"
| "py_eq u v = False"

subsection \<open>Python values, exceptions, builtins\<close>

datatype error = ValueError | TypeError | OverflowError | IndexError | UnboundLocalError

text \<open>The values a caller may pass for a coordinate or a charge.\<close>

datatype pyval = PyFloat float64 | PyInt int | PyStr string | PyNone

text \<open>
  The builtin \<^verbatim>\<open>float(v)\<close>: a float is returned as it is; an int is rounded to a double,
  and raises \<^verbatim>\<open>OverflowError\<close> when it rounds to a magnitude beyond the largest double; a
  string is parsed and raises \<^verbatim>\<open>ValueError\<close> when it is no numeral; \<^verbatim>\<open>None\<close> raises
  \<^verbatim>\<open>TypeError\<close>. The grammar of numerals is Python's and not part of this module: the
  parser is a parameter.
\<close>

definition py_float :: "(string \<Rightarrow> float64 option) \<Rightarrow> pyval \<Rightarrow> error + float64" where
  "py_float parse v =
     (case v of
        PyFloat r \<Rightarrow> Inr r
      | PyInt i \<Rightarrow>
          if \<bar>i\<bar> < 2 ^ 1024 - 2 ^ 970 then Inr (double (of_int i)) else Inl OverflowError
      | PyStr s \<Rightarrow> (case parse s of Some r \<Rightarrow> Inr r | None \<Rightarrow> Inl ValueError)
      | PyNone \<Rightarrow> Inl TypeError)"

text \<open>
  \<^verbatim>\<open>str.lower()\<close>. A string is the list of its code points, which the type \<open>char\<close> has
  up to 255. Among these the upper-case letters are the codes 65 to 90 (\<^verbatim>\<open>A\<close> to \<^verbatim>\<open>Z\<close>),
  192 to 214 and 216 to 222 (the accented capitals of Latin-1); \<^verbatim>\<open>lower\<close> adds 32 to each
  of them, which sets the bit of value 32, and leaves every other character.
\<close>

definition upper_code :: "nat \<Rightarrow> bool" where
  "upper_code n \<longleftrightarrow> 65 \<le> n \<and> n \<le> 90 \<or> 192 \<le> n \<and> n \<le> 214 \<or> 216 \<le> n \<and> n \<le> 222"

definition lower_char :: "char \<Rightarrow> char" where
  "lower_char c =
     (case c of Char b0 b1 b2 b3 b4 b5 b6 b7 \<Rightarrow>
        if upper_code (of_char c) then Char b0 b1 b2 b3 b4 True b6 b7 else c)"

definition lower :: "string \<Rightarrow> string" where
  "lower s = map lower_char s"

text \<open>Indexing a sequence with a non-negative index.\<close>

definition idx :: "'a list \<Rightarrow> nat \<Rightarrow> error + 'a" where
  "idx xs i = (if i < length xs then Inr (xs ! i) else Inl IndexError)"

subsection \<open>\<^verbatim>\<open>collections.Counter\<close>\<close>

text \<open>
  A \<^verbatim>\<open>Counter\<close> is a dict, which keeps its keys in the order of their first insertion:
  an association list. Counting an element increments its entry or appends a new one.
\<close>

fun counter_add :: "('k \<times> nat) list \<Rightarrow> 'k \<Rightarrow> ('k \<times> nat) list" where
  "counter_add [] k = [(k, 1)]"
| "counter_add ((k', c) # kcs) k =
     (if k' = k then (k', Suc c) # kcs else (k', c) # counter_add kcs k)"

definition Counter :: "'k list \<Rightarrow> ('k \<times> nat) list" where
  "Counter ks = foldl counter_add [] ks"

text \<open>
  \<^verbatim>\<open>most_common()\<close> is \<^verbatim>\<open>sorted(self.items(), key=itemgetter(1), reverse=True)\<close>:
  a stable sort by descending count.
\<close>

definition most_common :: "('k \<times> nat) list \<Rightarrow> ('k \<times> nat) list" where
  "most_common kcs = sort_key (\<lambda>kc. - int (snd kc)) kcs"

subsection \<open>The class\<close>

type_synonym bond = "string \<times> int"

type_synonym conn = "(bond \<times> nat) set"

text \<open>
  The attributes of an instance. The record is polymorphic in the type of the four numbers:
  the methods that compute with them are modelled at the finite doubles, the type
  \<open>atom\<close>; \<^verbatim>\<open>__eq__\<close>, which computes nothing and only compares, is modelled at every value
  a float can hold.
\<close>

record 'f Atom =
  elem :: string
  x :: 'f
  y :: 'f
  z :: 'f
  q :: 'f
  num :: int
  connectivity :: "conn option"
  kind :: "(string \<times> conn) option"

type_synonym atom = "float64 Atom"

text \<open>
  \<^verbatim>\<open>__init__\<close>. The result is the lines printed and either the exception that left the
  constructor or the constructed atom. The four coercions run in order inside one
  \<^verbatim>\<open>try\<close>; only \<^verbatim>\<open>ValueError\<close> is caught.
\<close>

definition cast_message :: string where
  "cast_message = ''Some coordinates or charges cannot be cast to float!''"

definition except_ValueError :: "error \<Rightarrow> atom \<Rightarrow> string list \<times> (error + atom)" where
  "except_ValueError e self =
     (if e = ValueError then ([cast_message], Inr self) else ([], Inl e))"

definition Atom_init ::
  "(string \<Rightarrow> float64 option) \<Rightarrow> string \<Rightarrow> pyval \<Rightarrow> pyval \<Rightarrow> pyval \<Rightarrow> pyval \<Rightarrow> pyval
     \<Rightarrow> string list \<times> (error + atom)" where
  "Atom_init parse elemIn xIn yIn zIn qIn numIn =
     (let self = \<lparr>elem = elemIn, x = 0, y = 0, z = 0, q = 0, num = 1,
                   connectivity = None, kind = None\<rparr>
      in case py_float parse xIn of
           Inl e \<Rightarrow> except_ValueError e self
         | Inr fx \<Rightarrow>
             let self = self\<lparr>x := fx\<rparr>
             in case py_float parse yIn of
                  Inl e \<Rightarrow> except_ValueError e self
                | Inr fy \<Rightarrow>
                    let self = self\<lparr>y := fy\<rparr>
                    in case py_float parse zIn of
                         Inl e \<Rightarrow> except_ValueError e self
                       | Inr fz \<Rightarrow>
                           let self = self\<lparr>z := fz\<rparr>
                           in case py_float parse qIn of
                                Inl e \<Rightarrow> except_ValueError e self
                              | Inr fq \<Rightarrow> ([], Inr (self\<lparr>q := fq\<rparr>)))"

text \<open>\<^verbatim>\<open>__eq__\<close>: the elements lowered and the four numbers, each compared with \<^verbatim>\<open>==\<close>.\<close>

definition atom_eq :: "pyfloat Atom \<Rightarrow> pyfloat Atom \<Rightarrow> bool" where
  "atom_eq self other \<longleftrightarrow>
     lower (elem self) = lower (elem other) \<and> py_eq (x self) (x other)
       \<and> py_eq (y self) (y other) \<and> py_eq (z self) (z other) \<and> py_eq (q self) (q other)"

text \<open>\<^verbatim>\<open>dist\<close> (renamed: \<open>dist\<close> is the metric of HOL).\<close>

definition dist_atom :: "atom \<Rightarrow> float64 \<Rightarrow> float64 \<Rightarrow> float64 \<Rightarrow> float64" where
  "dist_atom self x1 y1 z1 =
     fsqrt (square (x self - x1) + square (y self - y1) + square (z self - z1))"

text \<open>
  \<^verbatim>\<open>dist_lat\<close>. The loop state is \<^verbatim>\<open>rMin\<close> together with \<^verbatim>\<open>x3, y3, z3\<close>, which are
  assigned together: \<open>None\<close> is the state before the first assignment (\<^verbatim>\<open>rMin\<close> is
  \<^verbatim>\<open>float("inf")\<close>, above every distance of the model, and the image is unbound),
  \<open>Some (rMin, x3, y3, z3)\<close> every state after it.
\<close>

type_synonym lat_state = "(float64 \<times> float64 \<times> float64 \<times> float64) option"

definition nVec :: "float64 list" where
  "nVec = [0, 0, 0]"

definition image_point ::
  "float64 \<Rightarrow> float64 \<Rightarrow> float64 \<Rightarrow> float64 list \<Rightarrow> float64 list \<Rightarrow> float64 list \<Rightarrow> error + (float64 \<times> float64 \<times> float64)" where
  "image_point x1 y1 z1 trans1 trans2 trans3 =
     (case (idx trans1 0, idx trans2 0, idx trans3 0) of
        (Inr a0, Inr b0, Inr c0) \<Rightarrow>
          (case (idx trans1 1, idx trans2 1, idx trans3 1) of
             (Inr a1, Inr b1, Inr c1) \<Rightarrow>
               (case (idx trans1 2, idx trans2 2, idx trans3 2) of
                  (Inr a2, Inr b2, Inr c2) \<Rightarrow>
                    Inr (x1 + a0 + b0 + c0, y1 + a1 + b1 + c1, z1 + a2 + b2 + c2)
                | _ \<Rightarrow> Inl IndexError)
           | _ \<Rightarrow> Inl IndexError)
      | _ \<Rightarrow> Inl IndexError)"

definition closer :: "atom \<Rightarrow> float64 \<times> float64 \<times> float64 \<Rightarrow> lat_state \<Rightarrow> lat_state" where
  "closer self p st =
     (case p of (x2, y2, z2) \<Rightarrow>
        let r = fsqrt (square (x self - x2) + square (y self - y2) + square (z self - z2))
        in case st of
             None \<Rightarrow> Some (r, x2, y2, z2)
           | Some (rMin, x3, y3, z3) \<Rightarrow> if r < rMin then Some (r, x2, y2, z2) else st)"

fun loop_c ::
  "atom \<Rightarrow> float64 \<Rightarrow> float64 \<Rightarrow> float64 \<Rightarrow> float64 list \<Rightarrow> float64 list \<Rightarrow> float64 list list \<Rightarrow> lat_state
     \<Rightarrow> error + lat_state" where
  "loop_c self x1 y1 z1 trans1 trans2 [] st = Inr st"
| "loop_c self x1 y1 z1 trans1 trans2 (trans3 # cSet) st =
     (case image_point x1 y1 z1 trans1 trans2 trans3 of
        Inl e \<Rightarrow> Inl e
      | Inr p \<Rightarrow> loop_c self x1 y1 z1 trans1 trans2 cSet (closer self p st))"

fun loop_b ::
  "atom \<Rightarrow> float64 \<Rightarrow> float64 \<Rightarrow> float64 \<Rightarrow> float64 list \<Rightarrow> float64 list list \<Rightarrow> float64 list list \<Rightarrow> lat_state
     \<Rightarrow> error + lat_state" where
  "loop_b self x1 y1 z1 trans1 [] cSet st = Inr st"
| "loop_b self x1 y1 z1 trans1 (trans2 # bSet) cSet st =
     (case loop_c self x1 y1 z1 trans1 trans2 cSet st of
        Inl e \<Rightarrow> Inl e
      | Inr st' \<Rightarrow> loop_b self x1 y1 z1 trans1 bSet cSet st')"

fun loop_a ::
  "atom \<Rightarrow> float64 \<Rightarrow> float64 \<Rightarrow> float64 \<Rightarrow> float64 list list \<Rightarrow> float64 list list \<Rightarrow> float64 list list \<Rightarrow> lat_state
     \<Rightarrow> error + lat_state" where
  "loop_a self x1 y1 z1 [] bSet cSet st = Inr st"
| "loop_a self x1 y1 z1 (trans1 # aSet) bSet cSet st =
     (case loop_b self x1 y1 z1 trans1 bSet cSet st of
        Inl e \<Rightarrow> Inl e
      | Inr st' \<Rightarrow> loop_a self x1 y1 z1 aSet bSet cSet st')"

definition dist_lat ::
  "atom \<Rightarrow> float64 \<Rightarrow> float64 \<Rightarrow> float64 \<Rightarrow> float64 list \<Rightarrow> float64 list \<Rightarrow> float64 list
     \<Rightarrow> error + (float64 \<times> float64 \<times> float64 \<times> float64)" where
  "dist_lat self x1 y1 z1 aVec bVec cVec =
     (let aVecN = map uminus aVec;
          bVecN = map uminus bVec;
          cVecN = map uminus cVec;
          aSet = [aVec, nVec, aVecN];
          bSet = [bVec, nVec, bVecN];
          cSet = [cVec, nVec, cVecN]
      in case loop_a self x1 y1 z1 aSet bSet cSet None of
           Inl e \<Rightarrow> Inl e
         | Inr None \<Rightarrow> Inl UnboundLocalError
         | Inr (Some res) \<Rightarrow> Inr res)"

text \<open>
  \<^verbatim>\<open>translated\<close> builds a new atom with the constructor and leaves the receiver as it
  is; \<^verbatim>\<open>translate\<close> assigns the receiver's coordinates.
\<close>

definition translated ::
  "(string \<Rightarrow> float64 option) \<Rightarrow> atom \<Rightarrow> float64 \<Rightarrow> float64 \<Rightarrow> float64
     \<Rightarrow> atom \<times> string list \<times> (error + atom)" where
  "translated parse self x1 y1 z1 =
     (let xout = x self + x1;
          yout = y self + y1;
          zout = z self + z1
      in (self, Atom_init parse (elem self) (PyFloat xout) (PyFloat yout) (PyFloat zout)
                  (PyFloat (q self)) (PyInt 1)))"

definition translate :: "atom \<Rightarrow> float64 \<Rightarrow> float64 \<Rightarrow> float64 \<Rightarrow> atom" where
  "translate self x1 y1 z1 =
     self\<lparr>x := x self + x1, y := y self + y1, z := z self + z1\<rparr>"

definition electrons :: "atom \<Rightarrow> atom \<times> nat \<times> nat" where
  "electrons self =
     (let element = lower (elem self)
      in (self,
          if element = ''h'' then (1, 1)
          else if element = ''c'' then (4, 6)
          else if element = ''n'' then (5, 7)
          else if element = ''o'' then (6, 8)
          else (0, 0)))"

definition periodic :: "(string \<times> int) list" where
  "periodic = [(''H'', 1), (''C'', 6), (''N'', 7), (''O'', 8)]"

definition num_to_elem :: "atom \<Rightarrow> int \<Rightarrow> atom" where
  "num_to_elem self n =
     foldl (\<lambda>s element. if n = snd element then s\<lparr>elem := fst element\<rparr> else s) self periodic"

text \<open>
  \<^verbatim>\<open>set_connectivity\<close>. The loop enumerates \<^verbatim>\<open>in_atoms\<close> and indexes \<^verbatim>\<open>in_row\<close> with the
  running index; \<open>frozenset\<close> keeps the entries of the sorted list and drops their order.
\<close>

fun links_loop :: "atom list \<Rightarrow> int list \<Rightarrow> nat \<Rightarrow> bond list \<Rightarrow> error + bond list" where
  "links_loop [] in_row i links = Inr links"
| "links_loop (a # in_atoms) in_row i links =
     (case idx in_row i of
        Inl e \<Rightarrow> Inl e
      | Inr b \<Rightarrow>
          links_loop in_atoms in_row (Suc i) (if b \<noteq> 0 then links @ [(elem a, b)] else links))"

definition set_connectivity :: "atom \<Rightarrow> atom list \<Rightarrow> int list \<Rightarrow> error + atom" where
  "set_connectivity self in_atoms in_row =
     (case links_loop in_atoms in_row 0 [] of
        Inl e \<Rightarrow> Inl e
      | Inr links \<Rightarrow>
          let c = set (most_common (Counter links))
          in Inr (self\<lparr>connectivity := Some c, kind := Some (elem self, c)\<rparr>))"

subsection \<open>Notions the properties are stated with\<close>

text \<open>
  The point \<open>p\<close> moved by one vector of each family (the components 0, 1, 2 of each), and
  the 27 candidate points in the order of the three nested loops.
\<close>

definition shift ::
  "float64 \<times> float64 \<times> float64 \<Rightarrow> float64 list \<Rightarrow> float64 list \<Rightarrow> float64 list \<Rightarrow> float64 \<times> float64 \<times> float64" where
  "shift p ta tb tc =
     (case p of (x1, y1, z1) \<Rightarrow>
        (x1 + ta ! 0 + tb ! 0 + tc ! 0, y1 + ta ! 1 + tb ! 1 + tc ! 1,
         z1 + ta ! 2 + tb ! 2 + tc ! 2))"

definition candidates ::
  "float64 \<times> float64 \<times> float64 \<Rightarrow> float64 list \<Rightarrow> float64 list \<Rightarrow> float64 list \<Rightarrow> (float64 \<times> float64 \<times> float64) list" where
  "candidates p aVec bVec cVec =
     [shift p ta tb tc.
        ta \<leftarrow> [aVec, [0, 0, 0], map uminus aVec],
        tb \<leftarrow> [bVec, [0, 0, 0], map uminus bVec],
        tc \<leftarrow> [cVec, [0, 0, 0], map uminus cVec]]"

definition dist_to :: "atom \<Rightarrow> float64 \<times> float64 \<times> float64 \<Rightarrow> float64" where
  "dist_to self p = (case p of (x1, y1, z1) \<Rightarrow> dist_atom self x1 y1 z1)"

text \<open>
  What \<^verbatim>\<open>float(v)\<close> returns, when it returns; the arguments it converts or rejects with
  \<^verbatim>\<open>ValueError\<close>; and a parser to try the constructor with, which knows the one numeral
  \<^verbatim>\<open>1.5\<close>.
\<close>

definition coerced :: "(string \<Rightarrow> float64 option) \<Rightarrow> pyval \<Rightarrow> float64 option" where
  "coerced parse v = (case py_float parse v of Inl e \<Rightarrow> None | Inr r \<Rightarrow> Some r)"

definition float_or_ValueError :: "(string \<Rightarrow> float64 option) \<Rightarrow> pyval \<Rightarrow> bool" where
  "float_or_ValueError parse v =
     (case py_float parse v of Inl e \<Rightarrow> e = ValueError | Inr r \<Rightarrow> True)"

definition parse_example :: "string \<Rightarrow> float64 option" where
  "parse_example s = (if s = ''1.5'' then Some (double (3/2)) else None)"

text \<open>
  The bonds of a row: the pairs of a peer's element and its row entry, over the peers whose
  entry is not zero, as the list the loop builds when the row is as long as the peer list,
  and as a multiset. \<open>counted M\<close> pairs every member of \<open>M\<close> with its multiplicity.
\<close>

definition bonded :: "atom list \<Rightarrow> int list \<Rightarrow> bond list" where
  "bonded in_atoms in_row =
     map (\<lambda>(a, b). (elem a, b)) (filter (\<lambda>(a, b). b \<noteq> 0) (zip in_atoms in_row))"

definition bond_mset :: "atom list \<Rightarrow> int list \<Rightarrow> bond multiset" where
  "bond_mset in_atoms in_row =
     image_mset (\<lambda>(a, b). (elem a, b)) (filter_mset (\<lambda>(a, b). b \<noteq> 0) (mset (zip in_atoms in_row)))"

definition counted :: "'a multiset \<Rightarrow> ('a \<times> nat) set" where
  "counted M = (\<lambda>k. (k, count M k)) ` set_mset M"

text \<open>
  The position at which a bond is first met in the scan, and the order \<^verbatim>\<open>most_common()\<close>
  promises: the greater count first, and for equal counts the bond met first.
\<close>

definition first_index :: "'a list \<Rightarrow> 'a \<Rightarrow> nat" where
  "first_index ks k = length (takeWhile (\<lambda>k'. k' \<noteq> k) ks)"

definition ranked_before :: "'k list \<Rightarrow> 'k \<times> nat \<Rightarrow> 'k \<times> nat \<Rightarrow> bool" where
  "ranked_before ks a b \<longleftrightarrow>
     snd b < snd a \<or> (snd a = snd b \<and> first_index ks (fst a) < first_index ks (fst b))"

text \<open>
  The float addition \<open>a + b\<close> is exact: the sum of the two numbers is itself a double, so
  that it is returned unrounded.
\<close>

definition exact_add :: "float64 \<Rightarrow> float64 \<Rightarrow> bool" where
  "exact_add a b \<longleftrightarrow> is_double (Rep_float64 a + Rep_float64 b)"

text \<open>
  Two floats are the same number: neither is NaN, and they are the same value or both a
  zero. No field of the atom is NaN.
\<close>

definition is_zero :: "pyfloat \<Rightarrow> bool" where
  "is_zero u \<longleftrightarrow> u = Finite 0 \<or> u = NegZero"

definition same_number :: "pyfloat \<Rightarrow> pyfloat \<Rightarrow> bool" where
  "same_number u v \<longleftrightarrow> u \<noteq> NaN \<and> v \<noteq> NaN \<and> (u = v \<or> is_zero u \<and> is_zero v)"

definition no_nan :: "pyfloat Atom \<Rightarrow> bool" where
  "no_nan a \<longleftrightarrow> x a \<noteq> NaN \<and> y a \<noteq> NaN \<and> z a \<noteq> NaN \<and> q a \<noteq> NaN"


definition methane_h :: atom where
  "methane_h = \<lparr>elem = ''H'', x = 1, y = double 2, z = double 3, q = double (1/4), num = 1,
                  connectivity = None, kind = None\<rparr>"

definition carbon :: atom where
  "carbon = \<lparr>elem = ''C'', x = 0, y = 0, z = 0, q = 0, num = 1, connectivity = None, kind = None\<rparr>"

definition oxygen :: atom where
  "oxygen = \<lparr>elem = ''O'', x = 0, y = 1, z = 0, q = 0, num = 1, connectivity = None, kind = None\<rparr>"

text \<open>
  The atom \<^verbatim>\<open>Atom("H", 0.1)\<close>, the atom \<^verbatim>\<open>translated(0.2, 0.0, 0.0)\<close> makes of it and the
  atom \<^verbatim>\<open>translated(-0.2, -0.0, -0.0)\<close> makes of that one.
\<close>

definition tenth_atom :: atom where
  "tenth_atom = \<lparr>elem = ''H'', x = double (1/10), y = 0, z = 0, q = 0, num = 1,
                  connectivity = None, kind = None\<rparr>"

definition moved_atom :: atom where
  "moved_atom = tenth_atom\<lparr>x := double (1351079888211149 / 2 ^ 52)\<rparr>"

definition back_atom :: atom where
  "back_atom = tenth_atom\<lparr>x := double (1801439850948199 / 2 ^ 54)\<rparr>"

text \<open>The atom \<^verbatim>\<open>Atom()\<close>, as \<^verbatim>\<open>__eq__\<close> sees it.\<close>

definition zero_atom :: "pyfloat Atom" where
  "zero_atom = \<lparr>elem = ''H'', x = Finite 0, y = Finite 0, z = Finite 0, q = Finite 0, num = 1,
                 connectivity = None, kind = None\<rparr>"

section \<open>Computing with floats\<close>

text \<open>
  Rounding leaves a double as it is, and returns a double nearest to its argument: no
  double lies strictly between a number and its rounding.
\<close>

lemma round_even_int: "round_even (of_int k) = k"
  by (simp add: round_even_def)

lemma round_even_nearest: "\<bar>of_int (round_even s) - s\<bar> \<le> \<bar>of_int k - s\<bar>"
proof -
  have "k \<le> \<lfloor>s\<rfloor> \<or> \<lfloor>s\<rfloor> + 1 \<le> k" by linarith
  then show ?thesis
  proof
    assume "k \<le> \<lfloor>s\<rfloor>"
    then have "of_int k \<le> (of_int \<lfloor>s\<rfloor> :: real)" by simp
    then show ?thesis
      by (auto simp: round_even_def Let_def)
  next
    assume "\<lfloor>s\<rfloor> + 1 \<le> k"
    then have "(of_int \<lfloor>s\<rfloor> :: real) + 1 \<le> of_int k"
      by (metis of_int_1 of_int_add of_int_le_iff)
    then show ?thesis
      by (auto simp: round_even_def Let_def)
  qed
qed

lemma ulp_exp_le:
  assumes "r = of_int m * 2 powr of_int e" and "\<bar>m\<bar> < 2 ^ 53" and "- 1074 \<le> e" and "r \<noteq> 0"
  shows "ulp_exp r \<le> e"
proof -
  have "\<bar>r\<bar> = \<bar>of_int m\<bar> * 2 powr of_int e"
    by (simp add: assms(1) abs_mult)
  also have "\<dots> < 2 ^ 53 * 2 powr of_int e"
    using assms(2) by (simp add: of_int_abs [symmetric] del: of_int_abs) 
  also have "\<dots> = 2 powr (of_int e + 53)"
    by (simp add: powr_add)
  finally have "\<bar>r\<bar> < 2 powr (of_int e + 53)" .
  moreover have "2 powr of_int \<lfloor>log 2 \<bar>r\<bar>\<rfloor> \<le> \<bar>r\<bar>"
    by (rule binade(1) [OF assms(4)])
  ultimately have "2 powr of_int \<lfloor>log 2 \<bar>r\<bar>\<rfloor> < (2 :: real) powr (of_int e + 53)"
    by linarith
  then have "of_int \<lfloor>log 2 \<bar>r\<bar>\<rfloor> < (of_int e + 53 :: real)"
    by simp
  then have "\<lfloor>log 2 \<bar>r\<bar>\<rfloor> < e + 53"
    by linarith
  with assms(3) show ?thesis
    by (simp add: ulp_exp_def)
qed

lemma fl_double:
  assumes "is_double r"
  shows "fl r = r"
proof (cases "r = 0")
  case True
  then show ?thesis by (simp add: fl_def)
next
  case False
  from assms obtain m e :: int where m: "\<bar>m\<bar> < 2 ^ 53" and e: "- 1074 \<le> e"
    and r: "r = of_int m * 2 powr of_int e"
    unfolding is_double_def by blast
  define E where "E = ulp_exp r"
  have le: "E \<le> e"
    unfolding E_def by (rule ulp_exp_le [OF r m e False])
  then obtain d :: nat where d: "e = E + int d"
    by (metis nonneg_int_cases diff_ge_0_iff_ge add_diff_cancel_left' add.commute diff_add_cancel)
  have p: "2 powr of_int e = (2 :: real) powr of_int E * 2 ^ d"
    by (subst d) (simp add: powr_add powr_realpow)
  have s: "r / 2 powr of_int E = of_int (m * 2 ^ d)"
    by (simp add: r p)
  have "fl r = of_int (round_even (r / 2 powr of_int E)) * 2 powr of_int E"
    using False by (simp add: fl_def E_def)
  also have "\<dots> = of_int (m * 2 ^ d) * 2 powr of_int E"
    by (simp only: s round_even_int)
  also have "\<dots> = r"
    by (simp add: r p)
  finally show ?thesis .
qed

lemma fl_nearest_multiple:
  assumes "r \<noteq> 0"
  shows "\<bar>fl r - r\<bar> \<le> \<bar>of_int k * 2 powr of_int (ulp_exp r) - r\<bar>"
proof -
  define P :: real where "P = 2 powr of_int (ulp_exp r)"
  have P: "0 < P" by (simp add: P_def)
  define s where "s = r / P"
  have r: "r = s * P" using P by (simp add: s_def)
  have f: "fl r = of_int (round_even s) * P"
    using assms by (simp add: fl_def P_def s_def)
  have "fl r - r = of_int (round_even s) * P - s * P"
    by (simp add: f r [symmetric])
  then have "fl r - r = (of_int (round_even s) - s) * P"
    by (simp add: algebra_simps)
  then have "\<bar>fl r - r\<bar> = \<bar>of_int (round_even s) - s\<bar> * P"
    using P by (simp add: abs_mult)
  also have "\<dots> \<le> \<bar>of_int k - s\<bar> * P"
    using round_even_nearest [of s k] P by (simp add: mult_right_mono)
  also have "\<dots> = \<bar>(of_int k - s) * P\<bar>"
    using P by (simp add: abs_mult)
  also have "(of_int k - s) * P = of_int k * P - r"
    using r by (simp add: algebra_simps)
  finally show ?thesis by (simp add: P_def)
qed

lemma fl_nearest:
  assumes "is_double d"
  shows "\<bar>fl r - r\<bar> \<le> \<bar>d - r\<bar>"
proof (cases "r = 0")
  case True
  then show ?thesis by (simp add: fl_def)
next
  case False
  from assms obtain m e :: int where m: "\<bar>m\<bar> < 2 ^ 53" and e: "- 1074 \<le> e"
    and d: "d = of_int m * 2 powr of_int e"
    unfolding is_double_def by blast
  define E where "E = ulp_exp r"
  note near = fl_nearest_multiple [OF False, folded E_def]
  show ?thesis
  proof (cases "E \<le> e")
    case True
    then obtain j :: nat where j: "e = E + int j"
      by (metis nonneg_int_cases diff_ge_0_iff_ge add_diff_cancel_left' add.commute diff_add_cancel)
    have "d = of_int (m * 2 ^ j) * 2 powr of_int E"
      by (simp add: d j powr_add powr_realpow)
    with near [of "m * 2 ^ j"] show ?thesis by simp
  next
    case False
    then have lt: "e < E" by simp
    with e have "- 1074 < E" by simp
    then have E: "E = \<lfloor>log 2 \<bar>r\<bar>\<rfloor> - 52"
      by (simp add: E_def ulp_exp_def max_def split: if_splits)
    have "2 powr of_int \<lfloor>log 2 \<bar>r\<bar>\<rfloor> \<le> \<bar>r\<bar>"
      by (rule binade(1) [OF \<open>r \<noteq> 0\<close>])
    then have big: "2 powr (of_int E + 52) \<le> \<bar>r\<bar>"
      by (simp add: E)
    have "\<bar>d\<bar> = \<bar>of_int m\<bar> * 2 powr of_int e"
      by (simp add: d abs_mult)
    also have "\<dots> < 2 ^ 53 * 2 powr of_int e"
      using m by (simp add: of_int_abs [symmetric] del: of_int_abs)
    also have "\<dots> = 2 powr (of_int e + 53)"
      by (simp add: powr_add)
    also have "\<dots> \<le> 2 powr (of_int E + 52)"
      using lt by simp
    finally have small: "\<bar>d\<bar> < 2 powr (of_int E + 52)" .
    have g: "2 powr (of_int E + 52) = of_int (2 ^ 52) * (2 :: real) powr of_int E"
      by (simp add: powr_add)
    show ?thesis
    proof (cases "0 < r")
      case True
      from near [of "2 ^ 52"] g have "\<bar>fl r - r\<bar> \<le> \<bar>2 powr (of_int E + 52) - r\<bar>"
        by simp
      with big small True show ?thesis by linarith
    next
      case False
      with \<open>r \<noteq> 0\<close> have neg: "r < 0" by simp
      from near [of "- (2 ^ 52)"] g have "\<bar>fl r - r\<bar> \<le> \<bar>- (2 powr (of_int E + 52)) - r\<bar>"
        by simp
      with big small neg show ?thesis by linarith
    qed
  qed
qed

lemma fl_ge: "is_double d \<Longrightarrow> d \<le> r \<Longrightarrow> d \<le> fl r"
  using fl_nearest [of d r] by linarith

lemma fl_le: "is_double d \<Longrightarrow> r \<le> d \<Longrightarrow> fl r \<le> d"
  using fl_nearest [of d r] by linarith

lemma is_double_value: "is_double (Rep_float64 a)"
  using Rep_float64 [of a] by simp

lemma float64_eqI: "Rep_float64 a = Rep_float64 b \<Longrightarrow> a = b"
  by (simp add: Rep_float64_inject)

lemma add_zero_float64: "a + 0 = (a :: float64)"
  by transfer (simp add: fl_double)

lemma zero_add_float64: "0 + a = (a :: float64)"
  by transfer (simp add: fl_double)

lemma diff_zero_float64: "a - 0 = (a :: float64)"
  by transfer (simp add: fl_double)

lemma uminus_zero_float64: "- 0 = (0 :: float64)"
  by transfer simp

lemma is_double_dyadic:
  assumes "\<bar>k\<bar> < 2 ^ 53" and "n \<le> 1074"
  shows "is_double (of_int k / 2 ^ n)"
  unfolding is_double_def
proof (intro exI conjI)
  show "\<bar>k\<bar> < 2 ^ 53" by fact
  show "- 1074 \<le> - int n" using assms(2) by simp
  show "real_of_int k / 2 ^ n = of_int k * 2 powr of_int (- int n)"
    by (simp add: powr_minus powr_realpow divide_inverse)
qed

lemma is_double_numeral: "(numeral w :: int) < 2 ^ 53 \<Longrightarrow> is_double (numeral w)"
  using is_double_dyadic [of "numeral w" 0] by simp

lemma is_double_numeral_half: "(numeral w :: int) < 2 ^ 53 \<Longrightarrow> is_double (numeral w / 2)"
  using is_double_dyadic [of "numeral w" 1] by simp

lemma is_double_numeral_quarter: "(numeral w :: int) < 2 ^ 53 \<Longrightarrow> is_double (numeral w / 4)"
  using is_double_dyadic [of "numeral w" 2] by simp

lemma is_double_half: "is_double (1 / 2)"
  using is_double_dyadic [of 1 1] by simp

lemma is_double_quarter: "is_double (1 / 4)"
  using is_double_dyadic [of 1 2] by simp

lemmas is_double_simps =
  is_double_zero is_double_one is_double_uminus is_double_numeral is_double_numeral_half
  is_double_numeral_quarter is_double_half is_double_quarter

lemmas value_simps =
  zero_float64.rep_eq one_float64.rep_eq uminus_float64.rep_eq plus_float64.rep_eq
  minus_float64.rep_eq double.rep_eq square.rep_eq fsqrt.rep_eq less_float64.rep_eq
  less_eq_float64.rep_eq

lemma fl_sqrt_quarter: "fl (sqrt (1 / 4)) = 1 / 2"
  by (simp add: real_sqrt_divide fl_double is_double_half)

lemma fl_sqrt_ge_one: "1 \<le> v \<Longrightarrow> 1 \<le> fl (sqrt v)"
  by (rule fl_ge) (simp_all add: is_double_one)

text \<open>
  Rounding at a known exponent: a number between \<open>1 / 2 ^ n\<close> and \<open>2 / 2 ^ n\<close> is rounded
  to a multiple of \<open>1 / 2 ^ (n + 52)\<close>, a number between 2 and 4 to a multiple of
  \<open>1 / 2 ^ 51\<close>. With it, the doubles that the literals \<^verbatim>\<open>0.1\<close>, \<^verbatim>\<open>0.2\<close>, \<^verbatim>\<open>1.7\<close> and
  \<^verbatim>\<open>1.2\<close> denote, and two sums.
\<close>

lemma fl_scale:
  assumes "r \<noteq> 0" and "ulp_exp r = - int m"
  shows "fl r = of_int (round_even (r * 2 ^ m)) / 2 ^ m"
proof -
  have "of_int (- int m) = - real m"
    by simp
  then have "2 powr of_int (- int m) = 1 / (2 :: real) ^ m"
    using powr_realpow [of 2 m] by (simp only: powr_minus divide_inverse)
  with assms show ?thesis
    by (simp add: fl_def)
qed

lemma ulp_exp_small:
  assumes "1 / 2 ^ n \<le> \<bar>r\<bar>" and "\<bar>r\<bar> < 2 / 2 ^ n" and "n \<le> 1022"
  shows "ulp_exp r = - int n - 52"
proof -
  have pos: "0 < \<bar>r\<bar>"
    using assms(1) by (smt (verit) divide_pos_pos zero_less_power zero_less_numeral)
  have "2 powr of_int (- int n) = 1 / (2 :: real) ^ n"
    by (simp add: powr_minus powr_realpow divide_inverse)
  moreover have "2 powr (of_int (- int n) + 1) = 2 powr of_int (- int n) * (2 :: real) powr 1"
    by (rule powr_add)
  ultimately have "\<lfloor>log 2 \<bar>r\<bar>\<rfloor> = - int n"
    using assms(1,2) floor_log_eq_powr_iff [of "\<bar>r\<bar>" 2 "- int n"] pos by simp
  with assms(3) show ?thesis
    by (simp add: ulp_exp_def)
qed

lemma fl_small:
  assumes "1 / 2 ^ n \<le> \<bar>r\<bar>" and "\<bar>r\<bar> < 2 / 2 ^ n" and "n \<le> 1022"
  shows "fl r = of_int (round_even (r * 2 ^ (n + 52))) / 2 ^ (n + 52)"
proof -
  have "r \<noteq> 0"
    using assms(1) by (smt (verit) divide_pos_pos zero_less_power zero_less_numeral abs_zero)
  moreover have "of_int (- int n - 52) = - real (n + 52)"
    by simp
  then have "2 powr of_int (- int n - 52) = 1 / (2 :: real) ^ (n + 52)"
    using powr_realpow [of 2 "n + 52"] by (simp only: powr_minus divide_inverse)
  ultimately show ?thesis
    by (simp add: fl_def ulp_exp_small [OF assms])
qed

lemma ulp_exp_two:
  assumes "2 \<le> \<bar>r\<bar>" and "\<bar>r\<bar> < 4"
  shows "ulp_exp r = - 51"
proof -
  have "(2 :: real) powr of_int 1 = 2" and "(2 :: real) powr (of_int 1 + 1) = 4"
    by simp_all
  then have "\<lfloor>log 2 \<bar>r\<bar>\<rfloor> = 1"
    using assms floor_log_eq_powr_iff [of "\<bar>r\<bar>" 2 1] by simp
  then show ?thesis
    by (simp add: ulp_exp_def)
qed

lemma fl_two:
  assumes "2 \<le> \<bar>r\<bar>" and "\<bar>r\<bar> < 4"
  shows "fl r = of_int (round_even (r * 2 ^ 51)) / 2 ^ 51"
proof (rule fl_scale)
  show "r \<noteq> 0"
    using assms(1) by auto
  show "ulp_exp r = - int 51"
    using ulp_exp_two [OF assms] by simp
qed

lemma fl_tenth: "fl (1 / 10) = 3602879701896397 / 2 ^ 55"
  by (subst fl_small [of 4]) (simp_all add: round_even_def)

lemma fl_fifth: "fl (1 / 5) = 3602879701896397 / 2 ^ 54"
  by (subst fl_small [of 3]) (simp_all add: round_even_def)

lemma fl_three_tenths:
  "fl (3602879701896397 / 2 ^ 55 + 3602879701896397 / 2 ^ 54) = 1351079888211149 / 2 ^ 52"
  by (subst fl_small [of 2]) (simp_all add: round_even_def)

lemma fl_seventeen_tenths: "fl (17 / 10) = 7656119366529843 / 2 ^ 52"
  by (subst fl_small [of 0]) (simp_all add: round_even_def)

lemma fl_six_fifths: "fl (6 / 5) = 5404319552844595 / 2 ^ 52"
  by (subst fl_small [of 0]) (simp_all add: round_even_def)

lemma fl_six_fifths_plus_one: "fl (5404319552844595 / 2 ^ 52 + 1) = 2476979795053773 / 2 ^ 50"
  by (subst fl_two) (simp_all add: round_even_def)

lemma fl_nonneg: "0 \<le> r \<Longrightarrow> 0 \<le> fl r"
  by (rule fl_ge) (simp_all add: is_double_zero)

lemma square_nonneg: "0 \<le> Rep_float64 (square a)"
  by (simp add: value_simps fl_nonneg)

lemma square_zero: "square 0 = 0"
  by (rule float64_eqI) (simp add: value_simps fl_double is_double_zero)

lemma half_value: "Rep_float64 (double (1/2)) = 1/2"
  by (simp add: value_simps fl_double is_double_half)

section \<open>The periodic distance\<close>

lemma image_point_ok:
  "3 \<le> length t1 \<Longrightarrow> 3 \<le> length t2 \<Longrightarrow> 3 \<le> length t3 \<Longrightarrow>
   image_point x1 y1 z1 t1 t2 t3 = Inr (shift (x1, y1, z1) t1 t2 t3)"
  by (auto simp: image_point_def idx_def shift_def)

lemma closer_None: "closer self p None = Some (dist_to self p, p)"
  by (simp add: closer_def dist_to_def dist_atom_def split: prod.splits)

lemma closer_Some:
  "closer self p (Some (r, p')) =
     (if dist_to self p < r then Some (dist_to self p, p) else Some (r, p'))"
  by (simp add: closer_def dist_to_def dist_atom_def split: prod.splits)

text \<open>With vectors of three components, the three loops are one pass over the candidates.\<close>

lemma loop_c_fold:
  "3 \<le> length t1 \<Longrightarrow> 3 \<le> length t2 \<Longrightarrow> \<forall>t \<in> set cSet. 3 \<le> length t \<Longrightarrow>
   loop_c self x1 y1 z1 t1 t2 cSet st =
     Inr (foldl (\<lambda>s p. closer self p s) st (map (shift (x1, y1, z1) t1 t2) cSet))"
  by (induction cSet arbitrary: st) (simp_all add: image_point_ok)

lemma loop_b_fold:
  "3 \<le> length t1 \<Longrightarrow> \<forall>t \<in> set bSet. 3 \<le> length t \<Longrightarrow> \<forall>t \<in> set cSet. 3 \<le> length t \<Longrightarrow>
   loop_b self x1 y1 z1 t1 bSet cSet st =
     Inr (foldl (\<lambda>s p. closer self p s) st
            (concat (map (\<lambda>t2. map (shift (x1, y1, z1) t1 t2) cSet) bSet)))"
  by (induction bSet arbitrary: st) (simp_all add: loop_c_fold)

lemma loop_a_fold:
  "\<forall>t \<in> set aSet. 3 \<le> length t \<Longrightarrow> \<forall>t \<in> set bSet. 3 \<le> length t \<Longrightarrow>
   \<forall>t \<in> set cSet. 3 \<le> length t \<Longrightarrow>
   loop_a self x1 y1 z1 aSet bSet cSet st =
     Inr (foldl (\<lambda>s p. closer self p s) st
            (concat (map (\<lambda>t1. concat (map (\<lambda>t2. map (shift (x1, y1, z1) t1 t2) cSet) bSet))
               aSet)))"
  by (induction aSet arbitrary: st) (simp_all add: loop_b_fold)


lemma dist_lat_fold:
  assumes "3 \<le> length aVec" "3 \<le> length bVec" "3 \<le> length cVec"
  shows "dist_lat self x1 y1 z1 aVec bVec cVec =
    (case foldl (\<lambda>s p. closer self p s) None (candidates (x1, y1, z1) aVec bVec cVec) of
       None \<Rightarrow> Inl UnboundLocalError | Some res \<Rightarrow> Inr res)"
proof -
  have "loop_a self x1 y1 z1 [aVec, nVec, map uminus aVec] [bVec, nVec, map uminus bVec]
          [cVec, nVec, map uminus cVec] None =
        Inr (foldl (\<lambda>s p. closer self p s) None (candidates (x1, y1, z1) aVec bVec cVec))"
    using assms by (subst loop_a_fold) (simp_all add: nVec_def candidates_def)
  then show ?thesis
    by (simp add: dist_lat_def Let_def split: option.splits)
qed

text \<open>
  The pass keeps the first candidate of least distance: a later candidate replaces the
  kept one only when it is strictly closer.
\<close>

lemma fold_closer_first_min:
  "ps \<noteq> [] \<Longrightarrow>
   \<exists>i<length ps. foldl (\<lambda>s p. closer self p s) None ps = Some (dist_to self (ps ! i), ps ! i)
      \<and> (\<forall>j<i. dist_to self (ps ! i) < dist_to self (ps ! j))
      \<and> (\<forall>j<length ps. dist_to self (ps ! i) \<le> dist_to self (ps ! j))"
proof (induction ps rule: rev_induct)
  case Nil
  then show ?case by simp
next
  case (snoc p ps)
  show ?case
  proof (cases "ps = []")
    case True
    then show ?thesis by (simp add: closer_None)
  next
    case False
    with snoc.IH obtain i where i: "i < length ps"
      and st: "foldl (\<lambda>s p. closer self p s) None ps = Some (dist_to self (ps ! i), ps ! i)"
      and first: "\<forall>j<i. dist_to self (ps ! i) < dist_to self (ps ! j)"
      and least: "\<forall>j<length ps. dist_to self (ps ! i) \<le> dist_to self (ps ! j)"
      by blast
    show ?thesis
    proof (cases "dist_to self p < dist_to self (ps ! i)")
      case True
      have "\<forall>j<length ps. dist_to self p < dist_to self (ps ! j)"
        using True least by force
      then show ?thesis
        using True st
        by (intro exI [of _ "length ps"]) (auto simp: closer_Some nth_append less_Suc_eq)
    next
      case False
      then show ?thesis
        using st i first least
        by (intro exI [of _ i]) (auto simp: closer_Some nth_append less_Suc_eq)
    qed
  qed
qed


lemma fold_closer_at:
  assumes "\<forall>a \<in> set as. dist_to self p < dist_to self a"
    and "\<forall>b \<in> set bs. dist_to self p \<le> dist_to self b"
  shows "foldl (\<lambda>s p. closer self p s) None (as @ p # bs) = Some (dist_to self p, p)"
proof -
  let ?ps = "as @ p # bs"
  have "?ps \<noteq> []" by simp
  from fold_closer_first_min [OF this, of self] obtain i where i: "i < length ?ps"
    and res: "foldl (\<lambda>s p. closer self p s) None ?ps = Some (dist_to self (?ps ! i), ?ps ! i)"
    and first: "\<forall>j<i. dist_to self (?ps ! i) < dist_to self (?ps ! j)"
    and least: "\<forall>j<length ?ps. dist_to self (?ps ! i) \<le> dist_to self (?ps ! j)"
    by blast
  have at: "?ps ! length as = p" by simp
  have "i = length as"
  proof (rule ccontr)
    assume "i \<noteq> length as"
    then consider "i < length as" | "length as < i" by linarith
    then show False
    proof cases
      case 1
      then have "?ps ! i \<in> set as" by (simp add: nth_append)
      with assms(1) have "dist_to self p < dist_to self (?ps ! i)" by blast
      moreover from least [rule_format, of "length as"]
      have "dist_to self (?ps ! i) \<le> dist_to self (?ps ! length as)"
        by simp
      ultimately show False by (simp add: at)
    next
      case 2
      with i have "?ps ! i \<in> set bs"
        by (auto simp: nth_append nth_Cons split: nat.splits)
      with assms(2) have "dist_to self p \<le> dist_to self (?ps ! i)" by blast
      moreover from first 2 have "dist_to self (?ps ! i) < dist_to self (?ps ! length as)"
        by blast
      ultimately show False by (simp add: at)
    qed
  qed
  with res at show ?thesis by simp
qed


lemma diff_far:
  assumes "1 \<le> \<bar>Rep_float64 a - Rep_float64 b\<bar>"
  shows "1 \<le> Rep_float64 (square (a - b))"
proof -
  have "1 \<le> \<bar>fl (Rep_float64 a - Rep_float64 b)\<bar>"
  proof (cases "0 \<le> Rep_float64 a - Rep_float64 b")
    case True
    with assms have "1 \<le> fl (Rep_float64 a - Rep_float64 b)"
      by (intro fl_ge) (simp_all add: is_double_one)
    then show ?thesis by simp
  next
    case False
    with assms have "fl (Rep_float64 a - Rep_float64 b) \<le> - 1"
      by (intro fl_le) (simp_all add: is_double_one is_double_uminus)
    then show ?thesis by simp
  qed
  then have "1 \<le> fl (Rep_float64 a - Rep_float64 b) * fl (Rep_float64 a - Rep_float64 b)"
    by (metis abs_mult_self_eq mult_mono' zero_le_one mult_1 abs_ge_zero)
  then show ?thesis
    by (simp add: value_simps fl_ge is_double_one)
qed

lemma sum_far:
  assumes "0 \<le> Rep_float64 u" and "0 \<le> Rep_float64 v" and "0 \<le> Rep_float64 w"
    and "1 \<le> Rep_float64 u \<or> 1 \<le> Rep_float64 v \<or> 1 \<le> Rep_float64 w"
  shows "1 \<le> Rep_float64 (fsqrt (u + v + w))"
proof -
  have uv: "0 \<le> fl (Rep_float64 u + Rep_float64 v)"
    using assms(1,2) by (simp add: fl_nonneg)
  have "1 \<le> fl (fl (Rep_float64 u + Rep_float64 v) + Rep_float64 w)"
  proof (cases "1 \<le> Rep_float64 w")
    case True
    with uv show ?thesis
      by (intro fl_ge) (simp_all add: is_double_one)
  next
    case False
    with assms have "1 \<le> Rep_float64 u + Rep_float64 v"
      by auto
    then have "1 \<le> fl (Rep_float64 u + Rep_float64 v)"
      by (intro fl_ge) (simp_all add: is_double_one)
    with assms(3) show ?thesis
      by (intro fl_ge) (simp_all add: is_double_one)
  qed
  then show ?thesis
    by (simp add: value_simps fl_sqrt_ge_one)
qed

lemma dist_to_far:
  assumes "1 \<le> \<bar>Rep_float64 (x self) - Rep_float64 x2\<bar>
         \<or> 1 \<le> \<bar>Rep_float64 (y self) - Rep_float64 y2\<bar>
         \<or> 1 \<le> \<bar>Rep_float64 (z self) - Rep_float64 z2\<bar>"
  shows "1 \<le> Rep_float64 (dist_to self (x2, y2, z2))"
  unfolding dist_to_def dist_atom_def prod.case
  using assms by (intro sum_far) (auto simp: square_nonneg diff_far)

lemma seventeen_tenths_value: "Rep_float64 (double (17/10)) = 7656119366529843 / 2 ^ 52"
  by (simp only: value_simps fl_seventeen_tenths)

lemma six_fifths_value: "Rep_float64 (double (6/5)) = 5404319552844595 / 2 ^ 52"
  by (simp only: value_simps fl_six_fifths)

lemma six_fifths_plus_one_value: "Rep_float64 (double (6/5) + 1) = 2476979795053773 / 2 ^ 50"
  by (simp only: value_simps fl_six_fifths fl_six_fifths_plus_one)

lemma six_fifths_minus_one_value: "Rep_float64 (double (6/5) + - 1) = 900719925474099 / 2 ^ 52"
proof -
  have "(5404319552844595 / 2 ^ 52 + - 1 :: real) = 900719925474099 / 2 ^ 52"
    by simp
  moreover have "is_double (900719925474099 / 2 ^ 52)"
    using is_double_dyadic [of 900719925474099 52] by simp
  ultimately show ?thesis
    by (simp only: value_simps fl_six_fifths fl_double)
qed

text \<open>
  Rounding decides between candidates that the real numbers do not tell apart. For an atom
  at \<^verbatim>\<open>(1.7, 0, 0)\<close>, the target \<^verbatim>\<open>(1.2, 0, 0)\<close> and the unit vectors, the image \<^verbatim>\<open>(2.2, 0, 0)\<close>,
  which is enumerated first, and the target are both 0.5 away over the reals. In floats
  \<^verbatim>\<open>1.7 - 1.2\<close> is 0.5, but \<^verbatim>\<open>1.2 + 1.0\<close> is rounded up, the image is
  \<^verbatim>\<open>0.5000000000000002\<close> away, and \<^verbatim>\<open>dist_lat\<close> returns the target.
\<close>

lemma dist_lat_rounded_tie:
  "dist_lat (self\<lparr>x := double (17/10), y := 0, z := 0\<rparr>) (double (6/5)) 0 0
      [1, 0, 0] [0, 1, 0] [0, 0, 1]
     = Inr (double (1/2), double (6/5), 0, 0)"
proof -
  let ?s = "self\<lparr>x := double (17/10), y := 0, z := 0\<rparr>"
  let ?t = "double (6/5)"
  note vals = seventeen_tenths_value six_fifths_value six_fifths_plus_one_value
    six_fifths_minus_one_value zero_float64.rep_eq one_float64.rep_eq uminus_float64.rep_eq
  have cands: "candidates (?t, 0, 0) [1, 0, 0] [0, 1, 0] [0, 0, 1] =
    [(?t + 1, 1, 1), (?t + 1, 1, 0), (?t + 1, 1, - 1),
     (?t + 1, 0, 1), (?t + 1, 0, 0), (?t + 1, 0, - 1),
     (?t + 1, - 1, 1), (?t + 1, - 1, 0), (?t + 1, - 1, - 1),
     (?t, 1, 1), (?t, 1, 0), (?t, 1, - 1), (?t, 0, 1)]
    @ (?t, 0, 0) #
    [(?t, 0, - 1), (?t, - 1, 1), (?t, - 1, 0), (?t, - 1, - 1),
     (?t + - 1, 1, 1), (?t + - 1, 1, 0), (?t + - 1, 1, - 1),
     (?t + - 1, 0, 1), (?t + - 1, 0, 0), (?t + - 1, 0, - 1),
     (?t + - 1, - 1, 1), (?t + - 1, - 1, 0), (?t + - 1, - 1, - 1)]"
    by (simp add: candidates_def shift_def add_zero_float64 zero_add_float64
          uminus_zero_float64)
  have far: "double (1/2) < dist_to ?s (x2, y2, z2)"
    if "1 \<le> \<bar>Rep_float64 (x ?s) - Rep_float64 x2\<bar>
         \<or> 1 \<le> \<bar>Rep_float64 (y ?s) - Rep_float64 y2\<bar>
         \<or> 1 \<le> \<bar>Rep_float64 (z ?s) - Rep_float64 z2\<bar>"
    for x2 y2 z2
    using dist_to_far [OF that] by (simp add: less_float64.rep_eq half_value)
  have centre: "dist_to ?s (?t, 0, 0) = double (1/2)"
  proof (rule float64_eqI)
    have "(7656119366529843 / 2 ^ 52 - 5404319552844595 / 2 ^ 52 :: real) = 1 / 2"
      by simp
    then have "Rep_float64 (double (17/10) - ?t) = 1/2"
      by (simp only: minus_float64.rep_eq seventeen_tenths_value six_fifths_value
            fl_double [OF is_double_half])
    then have "Rep_float64 (square (double (17/10) - ?t)) = fl (1/2 * (1/2))"
      by (simp only: square.rep_eq)
    then have "Rep_float64 (square (double (17/10) - ?t)) = 1/4"
      by (simp add: fl_double is_double_quarter)
    then have "fl (sqrt (Rep_float64 (square (double (17/10) - ?t)))) = 1/2"
      by (simp only: fl_sqrt_quarter)
    then show "Rep_float64 (dist_to ?s (?t, 0, 0)) = Rep_float64 (double (1/2))"
      by (simp add: dist_to_def dist_atom_def diff_zero_float64 square_zero add_zero_float64
            fsqrt.rep_eq fl_sqrt_quarter half_value)
  qed
  have plus_a: "double (1/2) < dist_to ?s (?t + 1, 0, 0)"
  proof -
    let ?d = "- 2251799813685249 / 2 ^ 52 :: real"
    have "(7656119366529843 / 2 ^ 52 - 2476979795053773 / 2 ^ 50 :: real) = ?d"
      by simp
    moreover have "is_double ?d"
      using is_double_dyadic [of "- 2251799813685249" 52] by simp
    ultimately have "Rep_float64 (double (17/10) - (?t + 1)) = ?d"
      by (simp only: minus_float64.rep_eq seventeen_tenths_value six_fifths_plus_one_value
            fl_double)
    then have sq: "Rep_float64 (square (double (17/10) - (?t + 1))) = fl (?d * ?d)"
      by (simp only: square.rep_eq)
    have "1125899906842625 / 2 ^ 52 \<le> fl (?d * ?d)"
      using is_double_dyadic [of 1125899906842625 52] by (intro fl_ge) simp_all
    then have "(4503599627370497 / 2 ^ 53)\<^sup>2 \<le> fl (?d * ?d)"
      by (simp add: power2_eq_square)
    then have "4503599627370497 / 2 ^ 53 \<le> sqrt (fl (?d * ?d))"
      by (rule real_le_rsqrt)
    then have "4503599627370497 / 2 ^ 53 \<le> fl (sqrt (fl (?d * ?d)))"
      using is_double_dyadic [of 4503599627370497 53] by (intro fl_ge) simp_all
    then have "1 / 2 < fl (sqrt (fl (?d * ?d)))"
      by simp
    then show ?thesis
      by (simp add: less_float64.rep_eq half_value dist_to_def dist_atom_def diff_zero_float64
            square_zero add_zero_float64 fsqrt.rep_eq sq del: power_numeral)
  qed
  have minus_a: "double (1/2) < dist_to ?s (?t + - 1, y2, z2)" for y2 z2
    by (rule far) (simp add: seventeen_tenths_value six_fifths_minus_one_value)
  have "foldl (\<lambda>s p. closer ?s p s) None (candidates (?t, 0, 0) [1, 0, 0] [0, 1, 0] [0, 0, 1])
    = Some (dist_to ?s (?t, 0, 0), ?t, 0, 0)"
    unfolding cands
    by (rule fold_closer_at)
      (simp_all add: centre plus_a minus_a [THEN less_imp_le] far far [THEN less_imp_le] vals
        del: power_numeral)
  then show ?thesis
    using centre by (simp add: dist_lat_fold)
qed




section \<open>Construction and translation\<close>

lemma double_one: "double 1 = 1"
  by (rule float64_eqI) (simp add: value_simps fl_double is_double_simps)

lemma one_add_one: "1 + 1 = double 2"
  by (rule float64_eqI) (simp add: value_simps fl_double is_double_simps)

lemma translated_result:
  "translated parse self dx dy dz =
     (self, [], Inr \<lparr>elem = elem self, x = x self + dx, y = y self + dy, z = z self + dz,
                     q = q self, num = 1, connectivity = None, kind = None\<rparr>)"
  by (simp add: translated_def Atom_init_def py_float_def)

lemma Atom_init_num:
  "snd (Atom_init parse elemIn xIn yIn zIn qIn numIn) = Inr a \<Longrightarrow> num a = 1"
  by (auto simp: Atom_init_def Let_def except_ValueError_def split: sum.splits if_splits)

lemma num_to_elem_num: "num (num_to_elem self n) = num self"
  by (simp add: num_to_elem_def periodic_def)

lemma set_connectivity_num:
  "set_connectivity self in_atoms in_row = Inr self' \<Longrightarrow> num self' = num self"
  by (auto simp: set_connectivity_def Let_def split: sum.splits)

lemma py_float_cases:
  "float_or_ValueError parse v \<Longrightarrow>
   (coerced parse v = None \<and> py_float parse v = Inl ValueError)
   \<or> (\<exists>r. coerced parse v = Some r \<and> py_float parse v = Inr r)"
  by (cases "py_float parse v") (auto simp: coerced_def float_or_ValueError_def)

text \<open>
  C6, as the code has it. The constructor catches \<^verbatim>\<open>ValueError\<close> only: \<^verbatim>\<open>None\<close> for a
  coordinate leaves it with a \<^verbatim>\<open>TypeError\<close> and no atom.
\<close>

theorem Atom_init_TypeError:
  "Atom_init (\<lambda>s. None) ''H'' PyNone (PyFloat 0) (PyFloat 0) (PyFloat 0) (PyInt 1)
     = ([], Inl TypeError)"
  by (simp add: Atom_init_def py_float_def except_ValueError_def)

text \<open>
  C6, amended. When each of the coordinates and the charge is an argument that \<^verbatim>\<open>float\<close>
  converts or rejects with \<^verbatim>\<open>ValueError\<close>, the constructor returns an atom and raises
  nothing. When one of the four coercions fails, the message is printed, and the field
  whose coercion failed keeps 0, as do the fields the constructor had not assigned yet.
\<close>

theorem Atom_init_ValueError_only:
  assumes "float_or_ValueError parse xIn" and "float_or_ValueError parse yIn"
    and "float_or_ValueError parse zIn" and "float_or_ValueError parse qIn"
  shows "\<exists>a. Atom_init parse elemIn xIn yIn zIn qIn numIn =
           (if coerced parse xIn = None \<or> coerced parse yIn = None
               \<or> coerced parse zIn = None \<or> coerced parse qIn = None
            then [cast_message] else [], Inr a)
         \<and> (coerced parse xIn = None \<longrightarrow> x a = 0 \<and> y a = 0 \<and> z a = 0 \<and> q a = 0)
         \<and> (coerced parse yIn = None \<longrightarrow> y a = 0 \<and> z a = 0 \<and> q a = 0)
         \<and> (coerced parse zIn = None \<longrightarrow> z a = 0 \<and> q a = 0)
         \<and> (coerced parse qIn = None \<longrightarrow> q a = 0)"
  using py_float_cases [OF assms(1)] py_float_cases [OF assms(2)]
    py_float_cases [OF assms(3)] py_float_cases [OF assms(4)]
  by (elim disjE exE conjE) (simp_all add: Atom_init_def Let_def except_ValueError_def)

theorem Atom_init_ValueError_only_witness:
  "float_or_ValueError parse_example (PyStr ''1.5'')
   \<and> float_or_ValueError parse_example (PyStr ''abc'')
   \<and> float_or_ValueError parse_example (PyInt 3)
   \<and> float_or_ValueError parse_example (PyFloat (double (1/4)))
   \<and> coerced parse_example (PyStr ''abc'') = None
   \<and> (\<exists>a. Atom_init parse_example ''C'' (PyStr ''1.5'') (PyStr ''abc'') (PyInt 3) (PyFloat (double (1/4)))
              (PyInt 6) = ([cast_message], Inr a)
         \<and> y a = 0 \<and> z a = 0 \<and> q a = 0)"
proof -
  have cx: "coerced parse_example (PyStr ''1.5'') = Some (double (3/2))"
    and cy: "coerced parse_example (PyStr ''abc'') = None"
    by (simp_all add: coerced_def py_float_def parse_example_def)
  have args: "float_or_ValueError parse_example (PyStr ''1.5'')"
    "float_or_ValueError parse_example (PyStr ''abc'')"
    "float_or_ValueError parse_example (PyInt 3)"
    "float_or_ValueError parse_example (PyFloat (double (1/4)))"
    by (simp_all add: float_or_ValueError_def py_float_def parse_example_def)
  note inst = Atom_init_ValueError_only [OF args, of "''C''" "PyInt 6",
      unfolded cx cy]
  from args cy inst show ?thesis by auto
qed

lemma is_double_moved: "is_double (1351079888211149 / 2 ^ 52)"
  using is_double_dyadic [of 1351079888211149 52] by simp

lemma is_double_back: "is_double (1801439850948199 / 2 ^ 54)"
  using is_double_dyadic [of 1801439850948199 54] by simp

lemma tenth_plus_fifth: "double (1/10) + double (1/5) = double (1351079888211149 / 2 ^ 52)"
  by (rule float64_eqI)
    (simp only: value_simps fl_tenth fl_fifth fl_three_tenths fl_double [OF is_double_moved])

lemma moved_minus_fifth:
  "double (1351079888211149 / 2 ^ 52) + - double (1/5) = double (1801439850948199 / 2 ^ 54)"
proof (rule float64_eqI)
  have "(1351079888211149 / 2 ^ 52 + - (3602879701896397 / 2 ^ 54) :: real)
          = 1801439850948199 / 2 ^ 54"
    by simp
  then show "Rep_float64 (double (1351079888211149 / 2 ^ 52) + - double (1/5))
          = Rep_float64 (double (1801439850948199 / 2 ^ 54))"
    by (simp only: value_simps fl_fifth fl_double [OF is_double_moved]
          fl_double [OF is_double_back])
qed

lemma back_value: "Rep_float64 (double (1801439850948199 / 2 ^ 54)) = 1801439850948199 / 2 ^ 54"
  by (simp only: value_simps fl_double [OF is_double_back])

lemma tenth_value: "Rep_float64 (double (1/10)) = 3602879701896397 / 2 ^ 55"
  by (simp only: value_simps fl_tenth)

lemma back_not_tenth: "double (1801439850948199 / 2 ^ 54) \<noteq> double (1/10)"
proof
  assume "double (1801439850948199 / 2 ^ 54) = double (1/10)"
  then have "Rep_float64 (double (1801439850948199 / 2 ^ 54)) = Rep_float64 (double (1/10))"
    by simp
  then show False
    unfolding back_value tenth_value by simp
qed

lemma exact_round_trip:
  assumes "exact_add a b"
  shows "a + b + - b = a"
proof (rule float64_eqI)
  have "fl (Rep_float64 a + Rep_float64 b) = Rep_float64 a + Rep_float64 b"
    using assms by (simp add: exact_add_def fl_double)
  then show "Rep_float64 (a + b + - b) = Rep_float64 a"
    by (simp add: value_simps fl_double is_double_value)
qed

lemma exact_add_example:
  "exact_add (x methane_h) 1 \<and> exact_add (y methane_h) (double 2) \<and> exact_add (z methane_h) 0"
  using is_double_numeral [of "num.Bit0 num.One"] is_double_numeral [of "num.Bit0 (num.Bit0 num.One)"]
    is_double_numeral [of "num.Bit1 num.One"]
  by (simp add: exact_add_def methane_h_def value_simps fl_double)

text \<open>
  C7, as the code has it. The two additions of the round trip are rounded. From \<^verbatim>\<open>x = 0.1\<close>,
  \<^verbatim>\<open>translated(0.2, 0.0, 0.0)\<close> gives \<^verbatim>\<open>x = 0.30000000000000004\<close>, and
  \<^verbatim>\<open>translated(-0.2, -0.0, -0.0)\<close> of that atom gives \<^verbatim>\<open>x = 0.10000000000000003\<close>, one unit in
  the last place above \<^verbatim>\<open>0.1\<close>.
\<close>

theorem translated_round_trip_rounds:
  "translated parse_example tenth_atom (double (1/5)) 0 0 = (tenth_atom, [], Inr moved_atom)
   \<and> translated parse_example moved_atom (- double (1/5)) (- 0) (- 0)
       = (moved_atom, [], Inr back_atom)
   \<and> Rep_float64 (x tenth_atom) = 3602879701896397 / 2 ^ 55
   \<and> Rep_float64 (x back_atom) = 1801439850948199 / 2 ^ 54
   \<and> x back_atom \<noteq> x tenth_atom"
proof -
  have "translated parse_example tenth_atom (double (1/5)) 0 0 = (tenth_atom, [], Inr moved_atom)"
    unfolding translated_result tenth_atom_def moved_atom_def
    by (simp add: add_zero_float64 del: power_numeral) (simp only: tenth_plus_fifth)
  moreover have "translated parse_example moved_atom (- double (1/5)) (- 0) (- 0)
       = (moved_atom, [], Inr back_atom)"
    unfolding translated_result tenth_atom_def moved_atom_def back_atom_def
    by (simp add: add_zero_float64 uminus_zero_float64 del: power_numeral)
      (simp only: moved_minus_fifth)
  moreover have "Rep_float64 (x tenth_atom) = 3602879701896397 / 2 ^ 55"
    unfolding tenth_atom_def by (simp only: tenth_value select_convs)
  moreover have "Rep_float64 (x back_atom) = 1801439850948199 / 2 ^ 54"
    unfolding back_atom_def tenth_atom_def by (simp only: back_value select_convs update_convs)
  moreover have "x back_atom \<noteq> x tenth_atom"
    unfolding back_atom_def tenth_atom_def
    by (simp only: back_not_tenth select_convs update_convs not_False_eq_True)
  ultimately show ?thesis
    by blast
qed

text \<open>
  C7, amended. \<open>translated\<close> by a vector and then by the negated vector leaves both
  receivers as they are, and returns an atom that has again each coordinate of the first
  atom whose first addition (\<open>x + dx\<close>, \<open>y + dy\<close>, \<open>z + dz\<close>) is exact.
\<close>

theorem translated_round_trip_exact:
  "\<exists>b c. translated parse self dx dy dz = (self, [], Inr b)
      \<and> translated parse b (- dx) (- dy) (- dz) = (b, [], Inr c)
      \<and> (exact_add (x self) dx \<longrightarrow> x c = x self)
      \<and> (exact_add (y self) dy \<longrightarrow> y c = y self)
      \<and> (exact_add (z self) dz \<longrightarrow> z c = z self)"
  by (simp add: translated_result exact_round_trip)

theorem translated_round_trip_exact_witness:
  "exact_add (x methane_h) 1 \<and> exact_add (y methane_h) (double 2) \<and> exact_add (z methane_h) 0
   \<and> (\<exists>b c. translated parse_example methane_h 1 (double 2) 0 = (methane_h, [], Inr b)
         \<and> translated parse_example b (- 1) (- double 2) (- 0) = (b, [], Inr c)
         \<and> x c = 1 \<and> y c = double 2 \<and> z c = double 3)"
proof -
  have "x methane_h = 1" and "y methane_h = double 2" and "z methane_h = double 3"
    by (simp_all add: methane_h_def)
  with translated_round_trip_exact [of parse_example methane_h 1 "double 2" 0] exact_add_example
  show ?thesis
    by metis
qed

text \<open>
  C9. Every atom the constructor returns has \<open>num = 1\<close>, whatever is passed for \<open>num\<close>, and
  \<open>translate\<close>, \<open>translated\<close>, \<open>set_connectivity\<close>, \<open>num_to_elem\<close> and \<open>electrons\<close> leave the
  receiver's \<open>num\<close> as it is; the atom \<open>translated\<close> returns has \<open>num = 1\<close> again.
\<close>

theorem num_invariant:
  "(snd (Atom_init parse elemIn xIn yIn zIn qIn numIn) = Inr a \<longrightarrow> num a = 1)
   \<and> num (translate self dx dy dz) = num self
   \<and> num (fst (translated parse self dx dy dz)) = num self
   \<and> (snd (snd (translated parse self dx dy dz)) = Inr out \<longrightarrow> num out = 1)
   \<and> (set_connectivity self in_atoms in_row = Inr self' \<longrightarrow> num self' = num self)
   \<and> num (num_to_elem self n) = num self
   \<and> num (fst (electrons self)) = num self"
  using Atom_init_num [of parse elemIn xIn yIn zIn qIn numIn a]
    set_connectivity_num [of self in_atoms in_row self']
  by (auto simp: translate_def translated_result num_to_elem_num electrons_def Let_def)

theorem num_invariant_witness:
  "snd (Atom_init (\<lambda>s. None) ''H'' (PyInt 1) (PyInt 2) (PyInt 3) (PyFloat (double (1/4))) (PyInt 6))
     = Inr methane_h
   \<and> num methane_h = 1
   \<and> num (translate methane_h 1 0 0) = num methane_h
   \<and> num (fst (translated (\<lambda>s. None) methane_h 1 0 0)) = num methane_h
   \<and> snd (snd (translated (\<lambda>s. None) methane_h 1 0 0)) = Inr (methane_h\<lparr>x := double 2\<rparr>)
   \<and> num (methane_h\<lparr>x := double 2\<rparr>) = 1
   \<and> set_connectivity methane_h [methane_h] [1]
        = Inr (methane_h\<lparr>connectivity := Some {((''H'', 1), 1)},
                         kind := Some (''H'', {((''H'', 1), 1)})\<rparr>)
   \<and> num (methane_h\<lparr>connectivity := Some {((''H'', 1), 1)},
                         kind := Some (''H'', {((''H'', 1), 1)})\<rparr>) = num methane_h
   \<and> num (num_to_elem methane_h 6) = num methane_h
   \<and> num (fst (electrons methane_h)) = num methane_h"
proof -
  have init:
    "snd (Atom_init (\<lambda>s. None) ''H'' (PyInt 1) (PyInt 2) (PyInt 3) (PyFloat (double (1/4))) (PyInt 6))
      = Inr methane_h"
    by (simp add: Atom_init_def py_float_def methane_h_def double_one)
  have moved: "snd (snd (translated (\<lambda>s. None) methane_h 1 0 0)) = Inr (methane_h\<lparr>x := double 2\<rparr>)"
    by (simp add: translated_def Atom_init_def py_float_def methane_h_def one_add_one
        add_zero_float64)
  have conn: "set_connectivity methane_h [methane_h] [1]
        = Inr (methane_h\<lparr>connectivity := Some {((''H'', 1), 1)},
                         kind := Some (''H'', {((''H'', 1), 1)})\<rparr>)"
    by (simp add: set_connectivity_def Let_def idx_def Counter_def most_common_def methane_h_def)
  note inv = num_invariant [of "\<lambda>s. None" "''H''" "PyInt 1" "PyInt 2" "PyInt 3" "PyFloat (double (1/4))"
      "PyInt 6" methane_h methane_h 1 0 0 "methane_h\<lparr>x := double 2\<rparr>" "[methane_h]" "[1]"
      "methane_h\<lparr>connectivity := Some {((''H'', 1), 1)},
                 kind := Some (''H'', {((''H'', 1), 1)})\<rparr>" 6]
  from init moved conn inv show ?thesis by blast
qed

text \<open>
  C10. The atom \<open>translated\<close> returns carries the receiver's element and charge and the
  moved coordinates; its \<open>connectivity\<close> and \<open>kind\<close> are \<open>None\<close> and its \<open>num\<close> is 1, also
  when the receiver's \<open>connectivity\<close> and \<open>kind\<close> are set.
\<close>

theorem translated_drops_classification:
  "\<exists>out. snd (snd (translated parse self dx dy dz)) = Inr out
      \<and> connectivity out = None \<and> kind out = None \<and> num out = 1
      \<and> elem out = elem self \<and> q out = q self
      \<and> x out = x self + dx \<and> y out = y self + dy \<and> z out = z self + dz
      \<and> snd (snd (translated parse (self\<lparr>connectivity := Some c, kind := Some (elem self, c)\<rparr>)
                     dx dy dz)) = Inr out"
  by (simp add: translated_result)

section \<open>Equality\<close>

lemma py_eq_same_number: "py_eq u v \<longleftrightarrow> same_number u v"
  by (cases u; cases v) (auto simp: same_number_def is_zero_def)

lemma lower_H: "lower ''H'' = lower ''h''"
  by (simp add: lower_def lower_char_def upper_code_def)

lemma double_nano_pos: "0 \<noteq> double (1 / 10 ^ 9)"
proof
  assume "0 = double (1 / 10 ^ 9)"
  then have "Rep_float64 0 = Rep_float64 (double (1 / 10 ^ 9))"
    by simp
  then have "fl (1 / 10 ^ 9) = 0"
    by (simp add: value_simps)
  moreover have "1 / 2 ^ 30 \<le> fl (1 / 10 ^ 9)"
    using is_double_dyadic [of 1 30] by (intro fl_ge) simp_all
  ultimately show False
    by simp
qed

text \<open>
  C8, as the code has it. \<^verbatim>\<open>__eq__\<close> compares the numbers with \<^verbatim>\<open>==\<close>, which is not the
  identity of the bits: the atoms with \<^verbatim>\<open>x = 0.0\<close> and \<^verbatim>\<open>x = -0.0\<close> are equal though the two
  zeros differ in their sign bit, and an atom with a NaN charge is not equal to itself.
\<close>

theorem atom_eq_not_bitwise:
  "atom_eq zero_atom (zero_atom\<lparr>x := NegZero\<rparr>) \<and> x zero_atom = Finite 0 \<and> Finite 0 \<noteq> NegZero
   \<and> \<not> atom_eq (zero_atom\<lparr>q := NaN\<rparr>) (zero_atom\<lparr>q := NaN\<rparr>)"
  by (simp add: atom_eq_def zero_atom_def)

text \<open>
  C8, amended. Two atoms are equal exactly when their elements agree after lowering the
  case and each of the four numbers of one is the same number as that of the other, with
  no tolerance: neither is NaN, and they are the same value or both a zero. Atoms
  without a NaN that differ only in the case of the element (\<open>H\<close> and \<open>h\<close>) are equal; atoms
  whose charges are two different finite numbers, however close, are not.
\<close>

theorem atom_eq_compares_numbers:
  "(atom_eq a b \<longleftrightarrow>
      lower (elem a) = lower (elem b) \<and> same_number (x a) (x b) \<and> same_number (y a) (y b)
        \<and> same_number (z a) (z b) \<and> same_number (q a) (q b))
   \<and> (no_nan a \<longrightarrow> atom_eq (a\<lparr>elem := ''H''\<rparr>) (a\<lparr>elem := ''h''\<rparr>))
   \<and> (q a = Finite u \<and> q b = Finite v \<and> u \<noteq> v \<longrightarrow> \<not> atom_eq a b)"
  by (auto simp: atom_eq_def py_eq_same_number lower_H same_number_def no_nan_def is_zero_def)

theorem atom_eq_compares_numbers_witness:
  "no_nan zero_atom \<and> atom_eq (zero_atom\<lparr>elem := ''H''\<rparr>) (zero_atom\<lparr>elem := ''h''\<rparr>)
   \<and> q zero_atom = Finite 0 \<and> 0 \<noteq> double (1 / 10 ^ 9)
   \<and> \<not> atom_eq zero_atom (zero_atom\<lparr>q := Finite (double (1 / 10 ^ 9))\<rparr>)"
proof -
  have "no_nan zero_atom" and "q zero_atom = Finite 0"
    and "q (zero_atom\<lparr>q := Finite (double (1 / 10 ^ 9))\<rparr>) = Finite (double (1 / 10 ^ 9))"
    by (simp_all add: no_nan_def zero_atom_def)
  with atom_eq_compares_numbers
         [of zero_atom "zero_atom\<lparr>q := Finite (double (1 / 10 ^ 9))\<rparr>" 0 "double (1 / 10 ^ 9)"]
    double_nano_pos
  show ?thesis
    by blast
qed

section \<open>The connectivity\<close>

lemma links_loop_zip:
  "length in_atoms + i \<le> length in_row \<Longrightarrow>
   links_loop in_atoms in_row i links = Inr (links @ bonded in_atoms (drop i in_row))"
proof (induction in_atoms arbitrary: i links)
  case Nil
  then show ?case by (simp add: bonded_def)
next
  case (Cons a in_atoms)
  then have i: "i < length in_row" by simp
  then have d: "drop i in_row = in_row ! i # drop (Suc i) in_row"
    by (simp add: Cons_nth_drop_Suc)
  from Cons.prems have "length in_atoms + Suc i \<le> length in_row" by simp
  from Cons.IH [OF this] i show ?case
    by (simp add: idx_def d bonded_def)
qed

lemma links_loop_bonded:
  "length in_atoms = length in_row \<Longrightarrow> links_loop in_atoms in_row 0 [] = Inr (bonded in_atoms in_row)"
  using links_loop_zip [of in_atoms 0 in_row "[]"] by simp

lemma map_of_counter_add:
  "map_of (counter_add kcs k) =
     (map_of kcs)(k \<mapsto> (case map_of kcs k of None \<Rightarrow> 1 | Some c \<Rightarrow> Suc c))"
  by (induction kcs k rule: counter_add.induct) (auto simp: fun_eq_iff)

lemma keys_counter_add:
  "map fst (counter_add kcs k) =
     (if k \<in> fst ` set kcs then map fst kcs else map fst kcs @ [k])"
  by (induction kcs k rule: counter_add.induct) (auto simp: image_iff)

lemma Counter_snoc: "Counter (ks @ [k]) = counter_add (Counter ks) k"
  by (simp add: Counter_def)

lemma Counter_lookup:
  "map_of (Counter ks) k = (if k \<in> set ks then Some (count_list ks k) else None)"
proof (induction ks rule: rev_induct)
  case Nil
  then show ?case by (simp add: Counter_def)
next
  case (snoc k' ks)
  then show ?case
    by (auto simp: Counter_snoc map_of_counter_add)
qed

lemma Counter_keys_set: "fst ` set (Counter ks) = set ks"
proof -
  have "fst ` set (Counter ks) = dom (map_of (Counter ks))"
    by (simp add: dom_map_of_conv_image_fst)
  also have "\<dots> = set ks"
    by (auto simp: dom_def Counter_lookup)
  finally show ?thesis .
qed

lemma Counter_keys_snoc:
  "map fst (Counter (ks @ [k])) =
     (if k \<in> set ks then map fst (Counter ks) else map fst (Counter ks) @ [k])"
  by (simp add: Counter_snoc keys_counter_add Counter_keys_set)

lemma Counter_distinct: "distinct (map fst (Counter ks))"
proof (induction ks rule: rev_induct)
  case Nil
  then show ?case by (simp add: Counter_def)
next
  case (snoc k ks)
  then show ?case
    using Counter_keys_set [of ks] by (auto simp: Counter_keys_snoc)
qed

lemma set_Counter: "set (Counter ks) = (\<lambda>k. (k, count_list ks k)) ` set ks"
proof -
  have "(k, c) \<in> set (Counter ks) \<longleftrightarrow> k \<in> set ks \<and> c = count_list ks k" for k c
    using map_of_eq_Some_iff [OF Counter_distinct, of ks k c]
    by (auto simp: Counter_lookup split: if_splits)
  then show ?thesis by auto
qed

lemma set_most_common: "set (most_common kcs) = set kcs"
  by (simp add: most_common_def)

lemma mset_bonded: "mset (bonded in_atoms in_row) = bond_mset in_atoms in_row"
  by (simp add: bonded_def bond_mset_def)

lemma connectivity_counted:
  "set (most_common (Counter (bonded in_atoms in_row))) = counted (bond_mset in_atoms in_row)"
  by (simp add: set_most_common set_Counter counted_def flip: mset_bonded count_mset)

lemma set_connectivity_counted:
  assumes "length in_atoms = length in_row"
  shows "set_connectivity self in_atoms in_row =
     Inr (self\<lparr>connectivity := Some (counted (bond_mset in_atoms in_row)),
               kind := Some (elem self, counted (bond_mset in_atoms in_row))\<rparr>)"
  by (simp add: set_connectivity_def links_loop_bonded [OF assms] Let_def connectivity_counted)

lemma set_connectivity_example:
  "set_connectivity self [carbon, oxygen, methane_h, carbon] [1, 2, 0, 1] =
     Inr (self\<lparr>connectivity := Some {((''C'', 1), 2), ((''O'', 2), 1)},
               kind := Some (elem self, {((''C'', 1), 2), ((''O'', 2), 1)})\<rparr>)"
  by (simp add: set_connectivity_def idx_def Let_def Counter_def most_common_def
      carbon_def oxygen_def methane_h_def numeral_2_eq_2)

text \<open>
  C2. With a row as long as the peer list, \<open>set_connectivity\<close> sets \<open>connectivity\<close> to the
  pairs of a bond and its multiplicity in the multiset of bonds (peer element, row entry)
  of the peers with a nonzero entry, and \<open>kind\<close> to the receiver's element with that value.
  Two carbons of order 1 and an oxygen of order 2 give exactly \<open>((C, 1), 2)\<close> and
  \<open>((O, 2), 1)\<close>.
\<close>

theorem set_connectivity_multiset:
  assumes "length in_atoms = length in_row"
  shows "set_connectivity self in_atoms in_row =
           Inr (self\<lparr>connectivity := Some (counted (bond_mset in_atoms in_row)),
                     kind := Some (elem self, counted (bond_mset in_atoms in_row))\<rparr>)
         \<and> set_connectivity self [carbon, oxygen, methane_h, carbon] [1, 2, 0, 1] =
             Inr (self\<lparr>connectivity := Some {((''C'', 1), 2), ((''O'', 2), 1)},
                       kind := Some (elem self, {((''C'', 1), 2), ((''O'', 2), 1)})\<rparr>)"
  using set_connectivity_counted [OF assms] set_connectivity_example by simp

theorem set_connectivity_multiset_witness:
  "length [carbon, oxygen, methane_h, carbon] = length [1, 2, 0, 1 :: int]
   \<and> bond_mset [carbon, oxygen, methane_h, carbon] [1, 2, 0, 1]
       = {#(''C'', 1), (''O'', 2), (''C'', 1)#}
   \<and> set_connectivity methane_h [carbon, oxygen, methane_h, carbon] [1, 2, 0, 1] =
       Inr (methane_h\<lparr>connectivity := Some (counted {#(''C'', 1), (''O'', 2), (''C'', 1)#}),
                      kind := Some (''H'', counted {#(''C'', 1), (''O'', 2), (''C'', 1)#})\<rparr>)
   \<and> counted {#(''C'', 1 :: int), (''O'', 2), (''C'', 1)#} = {((''C'', 1), 2), ((''O'', 2), 1)}"
proof -
  have len: "length [carbon, oxygen, methane_h, carbon] = length [1, 2, 0, 1 :: int]"
    by simp
  have bonds: "bond_mset [carbon, oxygen, methane_h, carbon] [1, 2, 0, 1]
       = {#(''C'', 1), (''O'', 2), (''C'', 1)#}"
    by (simp add: bond_mset_def carbon_def oxygen_def methane_h_def)
  have cnt: "counted {#(''C'', 1 :: int), (''O'', 2), (''C'', 1)#} = {((''C'', 1), 2), ((''O'', 2), 1)}"
    by (auto simp: counted_def)
  have h: "elem methane_h = ''H''"
    by (simp add: methane_h_def)
  note inst = set_connectivity_multiset [OF len, of methane_h, unfolded bonds h]
  from len bonds cnt inst show ?thesis by blast
qed

lemma zip_permuted:
  assumes "length as = length bs" and "mset p = mset [0..<length as]"
  shows "mset (zip (map ((!) as) p) (map ((!) bs) p)) = mset (zip as bs)"
proof -
  have "zip (map ((!) as) p) (map ((!) bs) p) = map (\<lambda>i. (as ! i, bs ! i)) p"
    by (induction p) simp_all
  then have "mset (zip (map ((!) as) p) (map ((!) bs) p))
      = image_mset (\<lambda>i. (as ! i, bs ! i)) (mset p)"
    by simp
  also have "\<dots> = mset (map (\<lambda>i. (as ! i, bs ! i)) [0..<length as])"
    unfolding assms(2) by (simp del: mset_upt)
  also have "map (\<lambda>i. (as ! i, bs ! i)) [0..<length as] = zip as bs"
    using assms(1) by (intro nth_equalityI) simp_all
  finally show ?thesis .
qed

text \<open>
  C4. Reordering the peer list and the row by the same permutation of the indices does not
  change what \<open>set_connectivity\<close> returns: the same connectivity, the same kind.
\<close>

theorem set_connectivity_permuted:
  assumes "length in_atoms = length in_row" and "mset p = mset [0..<length in_atoms]"
  shows "set_connectivity self (map ((!) in_atoms) p) (map ((!) in_row) p)
           = set_connectivity self in_atoms in_row"
proof -
  have "bond_mset (map ((!) in_atoms) p) (map ((!) in_row) p) = bond_mset in_atoms in_row"
    by (simp add: bond_mset_def zip_permuted [OF assms])
  moreover have "length (map ((!) in_atoms) p) = length (map ((!) in_row) p)"
    by simp
  ultimately show ?thesis
    using set_connectivity_counted [OF assms(1), of self]
      set_connectivity_counted [of "map ((!) in_atoms) p" "map ((!) in_row) p" self]
    by simp
qed

theorem set_connectivity_permuted_witness:
  "length [carbon, oxygen, carbon] = length [1, 2, 1 :: int]
   \<and> mset [2, 0, 1] = mset [0..<length [carbon, oxygen, carbon]]
   \<and> map ((!) [carbon, oxygen, carbon]) [2, 0, 1] = [carbon, carbon, oxygen]
   \<and> map ((!) [1, 2, 1 :: int]) [2, 0, 1] = [1, 1, 2]
   \<and> set_connectivity methane_h [carbon, carbon, oxygen] [1, 1, 2]
       = set_connectivity methane_h [carbon, oxygen, carbon] [1, 2, 1]"
proof -
  have len: "length [carbon, oxygen, carbon] = length [1, 2, 1 :: int]"
    by simp
  have perm: "mset [2, 0, 1] = mset [0..<length [carbon, oxygen, carbon]]"
    by (simp add: upt_rec del: mset_upt)
  have as: "map ((!) [carbon, oxygen, carbon]) [2, 0, 1] = [carbon, carbon, oxygen]"
    and bs: "map ((!) [1, 2, 1 :: int]) [2, 0, 1] = [1, 1, 2]"
    by simp_all
  note inst = set_connectivity_permuted [OF len perm, of methane_h, unfolded as bs]
  from len perm as bs inst show ?thesis by blast
qed

lemma first_index_less: "k \<in> set ks \<Longrightarrow> first_index ks k < length ks"
  by (induction ks) (auto simp: first_index_def)

lemma first_index_snoc_old: "k \<in> set ks \<Longrightarrow> first_index (ks @ [k']) k = first_index ks k"
  by (induction ks) (auto simp: first_index_def)

lemma first_index_snoc_new: "k \<notin> set ks \<Longrightarrow> first_index (ks @ [k]) k = length ks"
  by (induction ks) (auto simp: first_index_def)

lemma Counter_keys_ordered:
  "sorted_wrt (\<lambda>a b. first_index ks a < first_index ks b) (map fst (Counter ks))"
proof (induction ks rule: rev_induct)
  case Nil
  then show ?case by (simp add: Counter_def)
next
  case (snoc k ks)
  have old: "sorted_wrt (\<lambda>a b. first_index (ks @ [k]) a < first_index (ks @ [k]) b)
      (map fst (Counter ks))"
    using snoc.IH
    by (rule sorted_wrt_mono_rel [rotated])
      (use Counter_keys_set [of ks] in \<open>auto simp: first_index_snoc_old\<close>)
  show ?case
  proof (cases "k \<in> set ks")
    case True
    with old show ?thesis by (simp add: Counter_keys_snoc)
  next
    case False
    with old show ?thesis
      using Counter_keys_set [of ks]
      by (auto simp: Counter_keys_snoc sorted_wrt_append first_index_snoc_old
          first_index_snoc_new first_index_less)
  qed
qed

lemma stable_sorted_lex:
  fixes f :: "'a \<Rightarrow> int"
  assumes "sorted (map f l)" and "\<And>v. sorted_wrt R (filter (\<lambda>e. f e = v) l)"
  shows "sorted_wrt (\<lambda>a b. f a < f b \<or> (f a = f b \<and> R a b)) l"
  using assms
proof (induction l)
  case Nil
  then show ?case by simp
next
  case (Cons a l)
  have tail: "sorted_wrt R (filter (\<lambda>e. f e = v) l)" for v
    using Cons.prems(2) [of v] by (cases "f a = v") simp_all
  have "f a < f b \<or> (f a = f b \<and> R a b)" if b: "b \<in> set l" for b
  proof (cases "f a = f b")
    case True
    with Cons.prems(2) [of "f a"] b show ?thesis by auto
  next
    case False
    with Cons.prems(1) b show ?thesis by fastforce
  qed
  with Cons.IH tail Cons.prems(1) show ?case by simp
qed

lemma most_common_ranked: "sorted_wrt (ranked_before ks) (most_common (Counter ks))"
proof -
  let ?f = "\<lambda>kc :: 'a \<times> nat. - int (snd kc)"
  let ?R = "\<lambda>a b :: 'a \<times> nat. first_index ks (fst a) < first_index ks (fst b)"
  have "sorted_wrt ?R (Counter ks)"
    using Counter_keys_ordered [of ks] by (simp add: sorted_wrt_map)
  then have "sorted_wrt ?R (filter (\<lambda>e. ?f e = v) (most_common (Counter ks)))" for v
    unfolding most_common_def sort_key_stable by (rule sorted_wrt_filter)
  moreover have "sorted (map ?f (most_common (Counter ks)))"
    by (simp add: most_common_def)
  ultimately have "sorted_wrt (\<lambda>a b. ?f a < ?f b \<or> (?f a = ?f b \<and> ?R a b))
      (most_common (Counter ks))"
    by (rule stable_sorted_lex [rotated])
  then show ?thesis
    by (rule sorted_wrt_mono_rel [rotated]) (auto simp: ranked_before_def)
qed

text \<open>
  C3, as the code has it. Two scans that meet the same two bonds once each, in opposite
  orders, sort them in opposite orders, and store the same connectivity: the stored value
  is a \<^verbatim>\<open>frozenset\<close> and has no order of entries.
\<close>

theorem connectivity_order_lost:
  "links_loop [carbon, oxygen] [1, 2] 0 [] = Inr [(''C'', 1), (''O'', 2)]
   \<and> links_loop [oxygen, carbon] [2, 1] 0 [] = Inr [(''O'', 2), (''C'', 1)]
   \<and> most_common (Counter [(''C'', 1 :: int), (''O'', 2)]) = [((''C'', 1), 1), ((''O'', 2), 1)]
   \<and> most_common (Counter [(''O'', 2 :: int), (''C'', 1)]) = [((''O'', 2), 1), ((''C'', 1), 1)]
   \<and> set_connectivity methane_h [carbon, oxygen] [1, 2]
       = set_connectivity methane_h [oxygen, carbon] [2, 1]"
  by (simp add: set_connectivity_def idx_def Let_def Counter_def most_common_def
      carbon_def oxygen_def insert_commute)

text \<open>
  C3, amended. With a row as long as the peer list, the list \<^verbatim>\<open>most_common()\<close> returns
  is sorted by falling count, bonds of equal count in the order in which the scan of the
  peers first met them; the connectivity stored is the set of the entries of that list.
\<close>

theorem connectivity_unordered_set:
  assumes "length in_atoms = length in_row"
  shows "\<exists>links self'.
           links_loop in_atoms in_row 0 [] = Inr links
         \<and> set_connectivity self in_atoms in_row = Inr self'
         \<and> connectivity self' = Some (set (most_common (Counter links)))
         \<and> kind self' = Some (elem self, set (most_common (Counter links)))
         \<and> sorted_wrt (ranked_before links) (most_common (Counter links))"
  using links_loop_bonded [OF assms] most_common_ranked [of "bonded in_atoms in_row"]
  by (simp add: set_connectivity_def Let_def)

theorem connectivity_unordered_set_witness:
  "length [carbon, oxygen, carbon] = length [1, 2, 1 :: int]
   \<and> (\<exists>links self'.
           links_loop [carbon, oxygen, carbon] [1, 2, 1] 0 [] = Inr links
         \<and> set_connectivity methane_h [carbon, oxygen, carbon] [1, 2, 1] = Inr self'
         \<and> connectivity self' = Some (set (most_common (Counter links)))
         \<and> kind self' = Some (elem methane_h, set (most_common (Counter links)))
         \<and> sorted_wrt (ranked_before links) (most_common (Counter links)))
   \<and> links_loop [carbon, oxygen, carbon] [1, 2, 1] 0 [] = Inr [(''C'', 1), (''O'', 2), (''C'', 1)]
   \<and> most_common (Counter [(''C'', 1 :: int), (''O'', 2), (''C'', 1)])
       = [((''C'', 1), 2), ((''O'', 2), 1)]"
proof -
  have len: "length [carbon, oxygen, carbon] = length [1, 2, 1 :: int]"
    by simp
  have links: "links_loop [carbon, oxygen, carbon] [1, 2, 1] 0 []
      = Inr [(''C'', 1), (''O'', 2), (''C'', 1)]"
    by (simp add: idx_def carbon_def oxygen_def)
  have common: "most_common (Counter [(''C'', 1 :: int), (''O'', 2), (''C'', 1)])
       = [((''C'', 1), 2), ((''O'', 2), 1)]"
    by (simp add: Counter_def most_common_def numeral_2_eq_2)
  note inst = connectivity_unordered_set [OF len, of methane_h]
  from len inst links common show ?thesis by blast
qed

end
